theory Spec2Isabelle
  imports Main "HOL-Library.Monad_Syntax"
begin

section \<open>JavaScript values\<close>

text \<open>
  The log engine (\<^verbatim>\<open>src/ui/log-engine.js\<close>) and the import/export module
  (\<^verbatim>\<open>src/ui/log-io.js\<close>) work on dynamically typed values. Strings are sequences
  of 8-bit code units (\<open>string\<close>); code units above 255 are outside the model.
  Numbers are the integers together with \<open>NaN\<close>: identifiers, terminal numbers and
  counters of the program are integers, and a number's decimal rendering
  (\<open>numToString\<close>) is JavaScript's for every integer below \<open>10^21\<close> in magnitude.
  Arrays and objects are compared by their contents.
\<close>

datatype jsnum = Num int | NaN

datatype jsval =
    JUndefined
  | JNull
  | JBool bool
  | JNum jsnum
  | JStr string
  | JArr "jsval list"
  | JObj "(string \<times> jsval) list"

datatype js_error = Error string | TypeError | SyntaxError

text \<open>\<^verbatim>\<open>v == null\<close>: the loose comparison holds of \<^verbatim>\<open>null\<close> and \<^verbatim>\<open>undefined\<close> only.\<close>

definition nullish :: "jsval \<Rightarrow> bool" where
  "nullish v = (v = JNull \<or> v = JUndefined)"

text \<open>Truthiness, as \<^verbatim>\<open>a || b\<close>, \<^verbatim>\<open>a && b\<close> and \<^verbatim>\<open>if (a)\<close> read a value.\<close>

fun truthy :: "jsval \<Rightarrow> bool" where
  "truthy JUndefined = False"
| "truthy JNull = False"
| "truthy (JBool b) = b"
| "truthy (JNum (Num n)) = (n \<noteq> 0)"
| "truthy (JNum NaN) = False"
| "truthy (JStr s) = (s \<noteq> [])"
| "truthy (JArr xs) = True"
| "truthy (JObj kvs) = True"

text \<open>\<^verbatim>\<open>a || b\<close> and \<^verbatim>\<open>a ?? b\<close>.\<close>

definition js_or :: "jsval \<Rightarrow> jsval \<Rightarrow> jsval" where
  "js_or a b = (if truthy a then a else b)"

definition js_coalesce :: "jsval \<Rightarrow> jsval \<Rightarrow> jsval" where
  "js_coalesce a b = (if nullish a then b else a)"

fun is_string :: "jsval \<Rightarrow> bool" where
  "is_string (JStr s) = True"
| "is_string v = False"

subsection \<open>Character classes and string methods\<close>

abbreviation LF :: char where "LF \<equiv> CHR 0x0A"

abbreviation CR :: char where "CR \<equiv> CHR 0x0D"

abbreviation dquote :: char where "dquote \<equiv> CHR 0x22"

definition is_digit :: "char \<Rightarrow> bool" where
  "is_digit c = (c \<in> set ''0123456789'')"

text \<open>The class \<^verbatim>\<open>\w\<close> of a regular expression.\<close>

definition is_word :: "char \<Rightarrow> bool" where
  "is_word c = (c \<in> set ''abcdefghijklmnopqrstuvwxyzABCDEFGHIJKLMNOPQRSTUVWXYZ0123456789_'')"

text \<open>
  The class \<^verbatim>\<open>\s\<close>, which is also what \<^verbatim>\<open>trim\<close> strips: tab, line feed,
  vertical tab, form feed, carriage return, space and no-break space.
\<close>

definition is_space :: "char \<Rightarrow> bool" where
  "is_space c = (c \<in> {CHR 0x09, CHR 0x0A, CHR 0x0B, CHR 0x0C, CHR 0x0D, CHR 0x20, CHR 0xA0})"

text \<open>A line terminator: the dot of a regular expression matches every other character.\<close>

definition is_line_terminator :: "char \<Rightarrow> bool" where
  "is_line_terminator c = (c = LF \<or> c = CR)"

definition trimStart :: "string \<Rightarrow> string" where
  "trimStart s = dropWhile is_space s"

definition trim :: "string \<Rightarrow> string" where
  "trim s = rev (dropWhile is_space (rev (dropWhile is_space s)))"

text \<open>
  \<^verbatim>\<open>toLowerCase\<close> and \<^verbatim>\<open>toUpperCase\<close> on the ASCII letters; other code units are
  left as they are.
\<close>

definition lower_char :: "char \<Rightarrow> char" where
  "lower_char c =
     (case map_of (zip ''ABCDEFGHIJKLMNOPQRSTUVWXYZ'' ''abcdefghijklmnopqrstuvwxyz'') c of
        Some d \<Rightarrow> d | None \<Rightarrow> c)"

definition upper_char :: "char \<Rightarrow> char" where
  "upper_char c =
     (case map_of (zip ''abcdefghijklmnopqrstuvwxyz'' ''ABCDEFGHIJKLMNOPQRSTUVWXYZ'') c of
        Some d \<Rightarrow> d | None \<Rightarrow> c)"

definition toLowerCase :: "string \<Rightarrow> string" where
  "toLowerCase s = map lower_char s"

definition toUpperCase :: "string \<Rightarrow> string" where
  "toUpperCase s = map upper_char s"

text \<open>\<^verbatim>\<open>parts.join(sep)\<close> on strings.\<close>

fun join :: "string \<Rightarrow> string list \<Rightarrow> string" where
  "join sep [] = []"
| "join sep [x] = x"
| "join sep (x # y # ys) = x @ sep @ join sep (y # ys)"

text \<open>\<^verbatim>\<open>text.split('\n')\<close>: the pieces between the separators, one more than there
  are separators.\<close>

fun split_on :: "char \<Rightarrow> string \<Rightarrow> string list" where
  "split_on d [] = [[]]"
| "split_on d (c # cs) =
     (if c = d then [] # split_on d cs
      else (case split_on d cs of p # ps \<Rightarrow> (c # p) # ps | [] \<Rightarrow> [[c]]))"

text \<open>\<^verbatim>\<open>s.padStart(n)\<close>: spaces in front, up to length \<open>n\<close>.\<close>

definition padStart :: "nat \<Rightarrow> string \<Rightarrow> string" where
  "padStart n s = replicate (n - length s) (CHR '' '') @ s"

subsection \<open>Numbers and their strings\<close>

definition digit_char :: "nat \<Rightarrow> char" where
  "digit_char d = ''0123456789'' ! d"

definition digit_val :: "char \<Rightarrow> nat" where
  "digit_val c = (case map_of (zip ''0123456789'' [0 ..< 10]) c of Some d \<Rightarrow> d | None \<Rightarrow> 0)"

fun digits :: "nat \<Rightarrow> string" where
  "digits n = (if n < 10 then [digit_char n] else digits (n div 10) @ [digit_char (n mod 10)])"

declare digits.simps [simp del]

text \<open>The value of a run of decimal digits, read from the left.\<close>

definition digits_value :: "string \<Rightarrow> nat" where
  "digits_value ds = foldl (\<lambda>acc c. 10 * acc + digit_val c) 0 ds"

text \<open>\<^verbatim>\<open>String(n)\<close> of a number.\<close>

fun numToString :: "jsnum \<Rightarrow> string" where
  "numToString NaN = ''NaN''"
| "numToString (Num i) = (if i < 0 then CHR ''-'' # digits (nat (- i)) else digits (nat i))"

text \<open>
  \<^verbatim>\<open>Number(s)\<close> of a string: surrounding white space is dropped, the empty string is
  \<open>0\<close>, an optionally signed run of decimal digits is its value. Every other string
  gives \<open>NaN\<close> here; JavaScript reads some of them (fractions, exponents, radix
  prefixes, \<^verbatim>\<open>Infinity\<close>) as numbers that are not decimal integers, which this
  model's numbers do not have.
\<close>

definition strToNumber :: "string \<Rightarrow> jsnum" where
  "strToNumber s =
     (let t = trim s in
      if t = [] then Num 0
      else (case t of
          c # ds \<Rightarrow>
            if c = CHR ''-'' \<and> ds \<noteq> [] \<and> list_all is_digit ds then Num (- int (digits_value ds))
            else if c = CHR ''+'' \<and> ds \<noteq> [] \<and> list_all is_digit ds then Num (int (digits_value ds))
            else if list_all is_digit t then Num (int (digits_value t))
            else NaN
        | [] \<Rightarrow> Num 0))"

text \<open>
  \<^verbatim>\<open>parseInt(s)\<close>, which the source calls on captures of \<^verbatim>\<open>\d{2}\<close> and
  \<^verbatim>\<open>\d+\<close> only: the value of the leading digits, \<open>NaN\<close> when there are none.
  The value is exact here; JavaScript rounds a value beyond \<open>2^53\<close> to the nearest
  double.
\<close>

definition parseInt :: "string \<Rightarrow> jsnum" where
  "parseInt s =
     (let ds = takeWhile is_digit s in if ds = [] then NaN else Num (int (digits_value ds)))"

text \<open>\<^verbatim>\<open>String(v)\<close>; an array joins its elements with commas, \<^verbatim>\<open>null\<close> and
  \<^verbatim>\<open>undefined\<close> elements as empty strings.\<close>

fun toString :: "jsval \<Rightarrow> string" where
  "toString JUndefined = ''undefined''"
| "toString JNull = ''null''"
| "toString (JBool b) = (if b then ''true'' else ''false'')"
| "toString (JNum n) = numToString n"
| "toString (JStr s) = s"
| "toString (JArr xs) =
     join '','' (map (\<lambda>x. if x = JNull \<or> x = JUndefined then [] else toString x) xs)"
| "toString (JObj kvs) = ''[object Object]''"

text \<open>\<^verbatim>\<open>Number(v)\<close>.\<close>

fun toNumber :: "jsval \<Rightarrow> jsnum" where
  "toNumber JUndefined = NaN"
| "toNumber JNull = Num 0"
| "toNumber (JBool b) = (if b then Num 1 else Num 0)"
| "toNumber (JNum n) = n"
| "toNumber (JStr s) = strToNumber s"
| "toNumber (JArr xs) = strToNumber (toString (JArr xs))"
| "toNumber (JObj kvs) = NaN"

text \<open>
  Reading a property \<^verbatim>\<open>obj.name\<close> of a value other than \<^verbatim>\<open>null\<close> and
  \<^verbatim>\<open>undefined\<close>, for the names the program reads (\<^verbatim>\<open>id\<close>, \<^verbatim>\<open>terminal\<close>,
  \<^verbatim>\<open>device_timestamp\<close>, \<^verbatim>\<open>level\<close>, \<^verbatim>\<open>tag\<close>, \<^verbatim>\<open>message\<close>, \<^verbatim>\<open>raw\<close>): the
  stored value on an object, \<^verbatim>\<open>undefined\<close> on a boolean, number, string or array.
\<close>

fun property :: "jsval \<Rightarrow> string \<Rightarrow> jsval" where
  "property (JObj kvs) k = (case map_of kvs k of Some v \<Rightarrow> v | None \<Rightarrow> JUndefined)"
| "property v k = JUndefined"

text \<open>\<^verbatim>\<open>obj[k] = v\<close> on an object's properties: a property that exists keeps its place.\<close>

fun setProp :: "string \<Rightarrow> jsval \<Rightarrow> (string \<times> jsval) list \<Rightarrow> (string \<times> jsval) list" where
  "setProp k v [] = [(k, v)]"
| "setProp k v ((k', v') # kvs) =
     (if k = k' then (k, v) # kvs else (k', v') # setProp k v kvs)"

section \<open>The session state (log-engine.js, lines 15-28)\<close>

text \<open>
  A log entry has the seven fields the program reads. A field holds any value: the
  streaming path stores what the device feed delivers, and \<open>normalize\<close> keeps whatever
  truthy value a candidate carries. An absent field is \<^verbatim>\<open>undefined\<close>. The field
  \<^verbatim>\<open>id\<close> is called \<open>ident\<close> here.
\<close>

record entry =
  ident :: jsval
  terminal :: jsval
  device_timestamp :: jsval
  level :: jsval
  tag :: jsval
  message :: jsval
  raw :: jsval

text \<open>
  A compiled pattern with the flags \<^verbatim>\<open>gi\<close>. What the pattern matches is the
  engine's business: \<open>re_exec s i\<close> is the end of the first match of the pattern in
  \<open>s\<close> that starts at index \<open>i\<close> or later, if there is one. The object carries the
  cursor \<^verbatim>\<open>lastIndex\<close> that the flag \<^verbatim>\<open>g\<close> gives it.
\<close>

record regexp =
  re_exec :: "string \<Rightarrow> nat \<Rightarrow> nat option"
  lastIndex :: nat

record state =
  logs :: "entry list"
  tags :: "jsval set"
  activeTags :: "jsval set"
  excludedTags :: "jsval set"
  enabledLevels :: "jsval set"
  searchRe :: "regexp option"
  autoScroll :: bool
  terminals :: "jsval \<rightharpoonup> nat"
  activeTerminals :: "jsval set option"
  searchMode :: string
  searchMatches :: "jsval list"
  searchCurrent :: int

definition initial_state :: state where
  "initial_state =
     \<lparr> logs = [], tags = {}, activeTags = {}, excludedTags = {},
       enabledLevels = {JStr ''error'', JStr ''warn'', JStr ''info'', JStr ''debug'', JStr ''raw''},
       searchRe = None, autoScroll = True, terminals = Map.empty, activeTerminals = None,
       searchMode = ''find'', searchMatches = [], searchCurrent = - 1 \<rparr>"

section \<open>The log engine (log-engine.js)\<close>

text \<open>
  \<^verbatim>\<open>re.test(s)\<close> on a pattern with the flag \<^verbatim>\<open>g\<close>: the search starts at the cursor;
  a match moves the cursor to its end, a failure (or a cursor beyond the string) puts
  it back to \<open>0\<close>.
\<close>

definition regexp_test :: "regexp \<Rightarrow> string \<Rightarrow> bool \<times> regexp" where
  "regexp_test r s =
     (if length s < lastIndex r then (False, r\<lparr>lastIndex := 0\<rparr>)
      else (case re_exec r s (lastIndex r) of
              None \<Rightarrow> (False, r\<lparr>lastIndex := 0\<rparr>)
            | Some e \<Rightarrow> (True, r\<lparr>lastIndex := e\<rparr>)))"

text \<open>
  \<^verbatim>\<open>matches(e)\<close>, lines 34-44. The state is returned too: the test of the compiled
  pattern moves the pattern's cursor.
\<close>

definition matches :: "entry \<Rightarrow> state \<Rightarrow> bool \<times> state" where
  "matches e st =
     (if level e \<notin> enabledLevels st then (False, st)
      else if truthy (tag e) \<and> tag e \<in> excludedTags st then (False, st)
      else if activeTags st \<noteq> {} \<and> tag e \<notin> activeTags st then (False, st)
      else
        (let (found, st1) =
               (if searchMode st = ''filter'' then
                  (case searchRe st of
                     Some r \<Rightarrow>
                       (let (ok, r') = regexp_test r (toString (raw e))
                        in (ok, st\<lparr>searchRe := Some r'\<rparr>))
                   | None \<Rightarrow> (True, st))
                else (True, st))
         in if \<not> found then (False, st1)
            else (case activeTerminals st1 of
                    None \<Rightarrow> (True, st1)
                  | Some ts \<Rightarrow> (js_coalesce (terminal e) (JNum (Num 0)) \<in> ts, st1))))"

text \<open>
  \<^verbatim>\<open>renderLine(e)\<close>, lines 46-67, as far as the session state and the control flow
  go; the HTML text it builds for the render surface is not modelled. \<^verbatim>\<open>esc\<close> calls
  \<^verbatim>\<open>replace\<close> on its argument and \<^verbatim>\<open>e.level.substring\<close> is called on the level, so
  a message, a truthy tag, a truthy timestamp or a level that is not a string throws a
  TypeError (\<open>Some\<close> error). \<^verbatim>\<open>msg.replace(state.searchRe, ...)\<close> with a global
  pattern leaves the pattern's cursor at \<open>0\<close>.
\<close>

definition renderLine :: "entry \<Rightarrow> state \<Rightarrow> js_error option \<times> state" where
  "renderLine e st =
     (if \<not> is_string (message e) then (Some TypeError, st)
      else
        (let st1 = (case searchRe st of
                      None \<Rightarrow> st
                    | Some r \<Rightarrow> st\<lparr>searchRe := Some (r\<lparr>lastIndex := 0\<rparr>)\<rparr>)
         in if truthy (tag e) \<and> \<not> is_string (tag e) then (Some TypeError, st1)
            else if truthy (device_timestamp e) \<and> \<not> is_string (device_timestamp e)
              then (Some TypeError, st1)
            else if \<not> is_string (level e) then (Some TypeError, st1)
            else (None, st1)))"

text \<open>\<^verbatim>\<open>setSearchMode\<close> and \<^verbatim>\<open>setSearch\<close>, lines 80-82 and 125-131. \<open>compile\<close> is the
  engine's \<^verbatim>\<open>new RegExp(val, 'gi')\<close>: \<open>None\<close> when the pattern is refused.\<close>

definition setSearchMode :: "string \<Rightarrow> state \<Rightarrow> state" where
  "setSearchMode mode st = st\<lparr>searchMode := mode\<rparr>"

definition setSearch ::
  "(string \<Rightarrow> (string \<Rightarrow> nat \<Rightarrow> nat option) option) \<Rightarrow> string \<Rightarrow> state \<Rightarrow> state" where
  "setSearch compile val st =
     st\<lparr>searchRe :=
          (if val \<noteq> [] then
             (case compile val of
                Some m \<Rightarrow> Some \<lparr>re_exec = m, lastIndex = 0\<rparr>
              | None \<Rightarrow> None)
           else None)\<rparr>"

text \<open>\<^verbatim>\<open>rebuild(logArea)\<close>, lines 84-87: \<^verbatim>\<open>state.logs.filter(matches)\<close>, then
  \<^verbatim>\<open>renderLine\<close> on every visible entry.\<close>

fun filter_matches :: "entry list \<Rightarrow> state \<Rightarrow> entry list \<times> state" where
  "filter_matches [] st = ([], st)"
| "filter_matches (e # es) st =
     (let (v, st1) = matches e st;
          (vs, st2) = filter_matches es st1
      in (if v then e # vs else vs, st2))"

fun render_all :: "entry list \<Rightarrow> state \<Rightarrow> js_error option \<times> state" where
  "render_all [] st = (None, st)"
| "render_all (e # es) st =
     (case renderLine e st of
        (Some err, st1) \<Rightarrow> (Some err, st1)
      | (None, st1) \<Rightarrow> render_all es st1)"

definition rebuild :: "state \<Rightarrow> js_error option \<times> state" where
  "rebuild st = (let (vis, st1) = filter_matches (logs st) st in render_all vis st1)"

text \<open>
  \<^verbatim>\<open>appendEntry(e, logArea)\<close>, lines 89-110. The result is the pair
  \<^verbatim>\<open>{ isNewTag, isNewTerminal }\<close>, or the TypeError of \<^verbatim>\<open>renderLine\<close>, which is
  thrown after the state has been updated. \<^verbatim>\<open>e.tag && !state.tags.has(e.tag)\<close> is
  the tag itself when the tag is falsy.
\<close>

definition appendEntry :: "entry \<Rightarrow> state \<Rightarrow> (js_error + jsval \<times> bool) \<times> state" where
  "appendEntry e st =
     (let st1 = st\<lparr>logs := logs st @ [e]\<rparr>;
          isNewTag = (if truthy (tag e) then JBool (tag e \<notin> tags st1) else tag e);
          st2 = (if truthy (tag e) then st1\<lparr>tags := insert (tag e) (tags st1)\<rparr> else st1);
          termId = js_coalesce (terminal e) (JNum (Num 0));
          isNewTerminal = (terminals st2 termId = None);
          st3 = (if isNewTerminal then st2\<lparr>terminals := (terminals st2)(termId \<mapsto> 0)\<rparr>
                 else st2);
          st4 = st3\<lparr>terminals :=
                   (terminals st3)(termId \<mapsto>
                      (case terminals st3 termId of Some c \<Rightarrow> c + 1 | None \<Rightarrow> 1))\<rparr>;
          (visible, st5) = matches e st4
      in if visible then
           (case renderLine e st5 of
              (Some err, st6) \<Rightarrow> (Inl err, st6)
            | (None, st6) \<Rightarrow> (Inr (isNewTag, isNewTerminal), st6))
         else (Inr (isNewTag, isNewTerminal), st5))"

text \<open>\<^verbatim>\<open>clearLogs(logArea)\<close>, lines 112-123.\<close>

definition clearLogs :: "state \<Rightarrow> state" where
  "clearLogs st =
     st\<lparr>logs := [], tags := {}, activeTags := {}, excludedTags := {},
        terminals := Map.empty, activeTerminals := None, searchRe := None,
        searchMatches := [], searchCurrent := - 1\<rparr>"

section \<open>Import and export (log-io.js)\<close>

subsection \<open>The normalizer, lines 251-262\<close>

text \<open>
  \<^verbatim>\<open>normalize(obj)\<close>. Reading \<^verbatim>\<open>obj.level\<close> throws on \<^verbatim>\<open>null\<close> and
  \<^verbatim>\<open>undefined\<close>, and \<^verbatim>\<open>toLowerCase\<close> exists on strings only, so a truthy level
  that is not a string throws too. The fallback id is the length of the store's log
  sequence at the time of the call.
\<close>

definition level_names :: "string list" where
  "level_names = [''error'', ''warn'', ''info'', ''debug'', ''raw'']"

definition normalize :: "state \<Rightarrow> jsval \<Rightarrow> js_error + entry" where
  "normalize st obj =
     (if nullish obj then Inl TypeError
      else (case js_or (property obj ''level'') (JStr ''raw'') of
          JStr s \<Rightarrow>
            (let lv = toLowerCase s in
             Inr \<lparr> ident = (if \<not> nullish (property obj ''id'')
                             then JNum (toNumber (property obj ''id''))
                             else JNum (Num (int (length (logs st))))),
                   terminal = (if \<not> nullish (property obj ''terminal'')
                               then JNum (toNumber (property obj ''terminal''))
                               else JNum (Num 0)),
                   device_timestamp = js_or (property obj ''device_timestamp'') JNull,
                   level = (if lv \<in> set level_names then JStr lv else JStr ''raw''),
                   tag = js_or (property obj ''tag'') JNull,
                   message = js_or (js_or (property obj ''message'') (property obj ''raw''))
                               (JStr []),
                   raw = js_or (js_or (property obj ''raw'') (property obj ''message''))
                           (JStr []) \<rparr>)
        | _ \<Rightarrow> Inl TypeError))"

text \<open>
  \<^verbatim>\<open>levelFromAbbrev\<close>, lines 264-272, on strings and falsy values; no function of
  the module calls it. (On a truthy value that is not a string the code throws, which
  this definition does not model.)
\<close>

definition startsWith :: "string \<Rightarrow> string \<Rightarrow> bool" where
  "startsWith p s = (take (length p) s = p)"

definition levelFromAbbrev :: "jsval \<Rightarrow> string" where
  "levelFromAbbrev v =
     (case v of
        JStr s \<Rightarrow>
          (if s = [] then ''raw''
           else (let l = toLowerCase s in
             if startsWith ''err'' l then ''error''
             else if startsWith ''wrn'' l \<or> startsWith ''war'' l then ''warn''
             else if startsWith ''inf'' l then ''info''
             else if startsWith ''dbg'' l \<or> startsWith ''deb'' l then ''debug''
             else ''raw''))
      | _ \<Rightarrow> ''raw'')"

text \<open>\<^verbatim>\<open>xs.map(f)\<close> where \<open>f\<close> may throw: the first exception ends the call.\<close>

fun map_result :: "('a \<Rightarrow> 'e + 'b) \<Rightarrow> 'a list \<Rightarrow> 'e + 'b list" where
  "map_result f [] = Inr []"
| "map_result f (x # xs) =
     (case f x of
        Inl err \<Rightarrow> Inl err
      | Inr y \<Rightarrow> (case map_result f xs of Inl err \<Rightarrow> Inl err | Inr ys \<Rightarrow> Inr (y # ys)))"

subsection \<open>The JSON parser, lines 86-90\<close>

text \<open>\<open>json_parse\<close> is the platform's \<^verbatim>\<open>JSON.parse\<close>.\<close>

definition parseJSON ::
  "(string \<Rightarrow> js_error + jsval) \<Rightarrow> state \<Rightarrow> string \<Rightarrow> js_error + entry list" where
  "parseJSON json_parse st text =
     (case json_parse text of
        Inl err \<Rightarrow> Inl err
      | Inr (JArr arr) \<Rightarrow> map_result (normalize st) arr
      | Inr _ \<Rightarrow> Inl (Error ''Expected a JSON array''))"

subsection \<open>The CSV parser, lines 92-105 and 319-364\<close>

fun splitCSVLines_loop ::
  "string \<Rightarrow> string list \<Rightarrow> string \<Rightarrow> bool \<Rightarrow> string list \<times> string" where
  "splitCSVLines_loop [] lines current inQuotes = (lines, current)"
| "splitCSVLines_loop (ch # rest) lines current inQuotes =
     (if ch = dquote then splitCSVLines_loop rest lines (current @ [ch]) (\<not> inQuotes)
      else if ch = LF \<and> \<not> inQuotes then splitCSVLines_loop rest (lines @ [current]) [] inQuotes
      else if ch = CR \<and> \<not> inQuotes then splitCSVLines_loop rest lines current inQuotes
      else splitCSVLines_loop rest lines (current @ [ch]) inQuotes)"

definition splitCSVLines :: "string \<Rightarrow> string list" where
  "splitCSVLines text =
     (let (lines, current) = splitCSVLines_loop text [] [] False
      in if current \<noteq> [] then lines @ [current] else lines)"

text \<open>The loop of \<^verbatim>\<open>parseCSVRow\<close>; a doubled quote inside quotes skips a character.\<close>

fun parseCSVRow_loop :: "string \<Rightarrow> string list \<Rightarrow> string \<Rightarrow> bool \<Rightarrow> string list" where
  "parseCSVRow_loop [] values current inQuotes = values @ [current]"
| "parseCSVRow_loop (ch # rest) values current inQuotes =
     (if ch = dquote then
        (case rest of
           ch2 # rest2 \<Rightarrow>
             if inQuotes \<and> ch2 = dquote
             then parseCSVRow_loop rest2 values (current @ [dquote]) inQuotes
             else parseCSVRow_loop rest values current (\<not> inQuotes)
         | [] \<Rightarrow> parseCSVRow_loop rest values current (\<not> inQuotes))
      else if ch = CHR '','' \<and> \<not> inQuotes
        then parseCSVRow_loop rest (values @ [current]) [] inQuotes
      else parseCSVRow_loop rest values (current @ [ch]) inQuotes)"

definition parseCSVRow :: "string \<Rightarrow> string list" where
  "parseCSVRow line = parseCSVRow_loop line [] [] False"

text \<open>\<^verbatim>\<open>header.forEach((col, i) => { obj[col] = vals[i] ?? ''; })\<close>.\<close>

fun row_object ::
  "string list \<Rightarrow> string list \<Rightarrow> (string \<times> jsval) list \<Rightarrow> (string \<times> jsval) list" where
  "row_object [] vals obj = obj"
| "row_object (col # cols) vals obj =
     row_object cols (tl vals)
       (setProp col (JStr (case vals of v # _ \<Rightarrow> v | [] \<Rightarrow> [])) obj)"

definition parseCSV :: "state \<Rightarrow> string \<Rightarrow> js_error + entry list" where
  "parseCSV st text =
     (let lines = splitCSVLines text in
      if length lines < 2
      then Inl (Error ''CSV must have a header row and at least one data row'')
      else (let header = parseCSVRow (hd lines) in
        map_result (\<lambda>line. normalize st (JObj (row_object header (parseCSVRow line) [])))
          (filter (\<lambda>l. trim l \<noteq> []) (tl lines))))"

subsection \<open>The plain-text parser, lines 107-172\<close>

text \<open>
  The four regular expressions of \<^verbatim>\<open>parseText\<close>, each as the function that
  returns its captures, \<open>None\<close> when the expression does not match. All are anchored
  at both ends and have no flag, so the dot stops at a line terminator and \<^verbatim>\<open>$\<close>
  is the end of the string. The building blocks: one literal character, a greedy
  \<^verbatim>\<open>p*\<close> and \<^verbatim>\<open>p+\<close> over a character class, \<^verbatim>\<open>\d{n}\<close>, and the final
  \<^verbatim>\<open>(.*)$\<close>. A class that is followed by a character outside it leaves the
  matcher no choice, so the greedy run is the match.
\<close>

definition expect :: "char \<Rightarrow> string \<Rightarrow> string option" where
  "expect c s = (case s of x # xs \<Rightarrow> if x = c then Some xs else None | [] \<Rightarrow> None)"

definition many1 :: "(char \<Rightarrow> bool) \<Rightarrow> string \<Rightarrow> (string \<times> string) option" where
  "many1 p s = (if takeWhile p s = [] then None else Some (takeWhile p s, dropWhile p s))"

definition skip_spaces :: "string \<Rightarrow> string" where
  "skip_spaces s = dropWhile is_space s"

definition digits_n :: "nat \<Rightarrow> string \<Rightarrow> string option" where
  "digits_n n s = (if n \<le> length s \<and> list_all is_digit (take n s) then Some (drop n s) else None)"

definition rest_of_line :: "string \<Rightarrow> string option" where
  "rest_of_line s = (if list_ex is_line_terminator s then None else Some s)"

text \<open>\<^verbatim>\<open>/^(\d{2})>\s(.*)$/\<close>\<close>

definition rttPrefix :: "string \<Rightarrow> (string \<times> string) option" where
  "rttPrefix line = do {
     s1 \<leftarrow> digits_n 2 line;
     s2 \<leftarrow> expect (CHR ''>'') s1;
     s3 \<leftarrow> (case s2 of w # r \<Rightarrow> if is_space w then Some r else None | [] \<Rightarrow> None);
     content \<leftarrow> rest_of_line s3;
     Some (take 2 line, content) }"

text \<open>\<^verbatim>\<open>\d{2}:\d{2}:\d{2}\.\d{3}(?:,\d{3})?\<close>: the capture and what follows it.\<close>

definition zephyr_timestamp :: "string \<Rightarrow> (string \<times> string) option" where
  "zephyr_timestamp s = do {
     s1 \<leftarrow> digits_n 2 s;
     s2 \<leftarrow> expect (CHR '':'') s1;
     s3 \<leftarrow> digits_n 2 s2;
     s4 \<leftarrow> expect (CHR '':'') s3;
     s5 \<leftarrow> digits_n 2 s4;
     s6 \<leftarrow> expect (CHR ''.'') s5;
     s7 \<leftarrow> digits_n 3 s6;
     let s8 = (case Option.bind (expect (CHR '','') s7) (digits_n 3) of
                 Some r \<Rightarrow> r | None \<Rightarrow> s7);
     Some (take (length s - length s8) s, s8) }"

definition is_tagchar :: "char \<Rightarrow> bool" where
  "is_tagchar c = (is_word c \<or> c = CHR ''.'' \<or> c = CHR ''_'' \<or> c = CHR ''-'')"

text \<open>\<^verbatim>\<open>/^\[(\d{2}:\d{2}:\d{2}\.\d{3}(?:,\d{3})?)\]\s*<(\w+)>\s*([\w._-]+):\s*(.*)$/\<close>\<close>

definition zephyr :: "string \<Rightarrow> (string \<times> string \<times> string \<times> string) option" where
  "zephyr content = do {
     s1 \<leftarrow> expect (CHR ''['') content;
     (ts, s2) \<leftarrow> zephyr_timestamp s1;
     s3 \<leftarrow> expect (CHR '']'') s2;
     s4 \<leftarrow> expect (CHR ''<'') (skip_spaces s3);
     (lv, s5) \<leftarrow> many1 is_word s4;
     s6 \<leftarrow> expect (CHR ''>'') s5;
     (tg, s7) \<leftarrow> many1 is_tagchar (skip_spaces s6);
     s8 \<leftarrow> expect (CHR '':'') s7;
     msg \<leftarrow> rest_of_line (skip_spaces s8);
     Some (ts, lv, tg, msg) }"

text \<open>\<^verbatim>\<open>/^<(\w+)>(.*)$/\<close>\<close>

definition tagged :: "string \<Rightarrow> (string \<times> string) option" where
  "tagged content = do {
     s1 \<leftarrow> expect (CHR ''<'') content;
     (tg, s2) \<leftarrow> many1 is_word s1;
     s3 \<leftarrow> expect (CHR ''>'') s2;
     rest \<leftarrow> rest_of_line s3;
     Some (tg, rest) }"

text \<open>
  \<^verbatim>\<open>/^\s*(\d+)?\s*(?:T(\d+))?\s*([\d:.,]+)?\s*\[(\w+)\]\s*(?:<([^>]+)>)?\s*(.*)$/\<close>,
  the shape of the module's own plain-text export. An optional group that does not
  take part in the match is \<open>None\<close> (\<^verbatim>\<open>undefined\<close> in the match array). The first
  group takes the leading digits whenever there are any: if the expression matches at
  all, it matches with that choice, which the matcher tries first.
\<close>

definition is_tschar :: "char \<Rightarrow> bool" where
  "is_tschar c = (is_digit c \<or> c = CHR '':'' \<or> c = CHR ''.'' \<or> c = CHR '','')"

definition opt_run :: "(char \<Rightarrow> bool) \<Rightarrow> string \<Rightarrow> string option \<times> string" where
  "opt_run p s = (if takeWhile p s = [] then (None, s) else (Some (takeWhile p s), dropWhile p s))"

definition opt_terminal :: "string \<Rightarrow> string option \<times> string" where
  "opt_terminal s =
     (case s of
        c # r \<Rightarrow> if c = CHR ''T'' \<and> takeWhile is_digit r \<noteq> []
                 then (Some (takeWhile is_digit r), dropWhile is_digit r) else (None, s)
      | [] \<Rightarrow> (None, s))"

definition opt_tag :: "string \<Rightarrow> string option \<times> string" where
  "opt_tag s =
     (case s of
        c # r \<Rightarrow>
          if c = CHR ''<'' \<and> takeWhile (\<lambda>x. x \<noteq> CHR ''>'') r \<noteq> []
             \<and> dropWhile (\<lambda>x. x \<noteq> CHR ''>'') r \<noteq> []
          then (Some (takeWhile (\<lambda>x. x \<noteq> CHR ''>'') r), tl (dropWhile (\<lambda>x. x \<noteq> CHR ''>'') r))
          else (None, s)
      | [] \<Rightarrow> (None, s))"

definition selfExport ::
  "string \<Rightarrow> (string option \<times> string option \<times> string option \<times> string \<times> string option \<times> string) option"
  where
  "selfExport content =
     (let (m1, s1) = opt_run is_digit (skip_spaces content);
          (m2, s2) = opt_terminal (skip_spaces s1);
          (m3, s3) = opt_run is_tschar (skip_spaces s2)
      in do {
        s4 \<leftarrow> expect (CHR ''['') (skip_spaces s3);
        (m4, s5) \<leftarrow> many1 is_word s4;
        s6 \<leftarrow> expect (CHR '']'') s5;
        let (m5, s7) = opt_tag (skip_spaces s6);
        m6 \<leftarrow> rest_of_line (skip_spaces s7);
        Some (m1, m2, m3, m4, m5, m6) })"

text \<open>
  The body of the \<^verbatim>\<open>map\<close> callback, lines 114-171, up to the call of
  \<open>normalize\<close>: the candidate object and the counter \<^verbatim>\<open>id\<close> after the line.
\<close>

definition opt_str :: "string option \<Rightarrow> jsval" where
  "opt_str m = (case m of Some s \<Rightarrow> JStr s | None \<Rightarrow> JUndefined)"

definition parseLine :: "string \<Rightarrow> int \<Rightarrow> jsval \<times> int" where
  "parseLine line idc =
     (let (term, content) =
            (case rttPrefix line of
               Some (pm1, pm2) \<Rightarrow> (JNum (parseInt pm1), pm2)
             | None \<Rightarrow> (JNum (Num 0), line))
      in case zephyr content of
           Some (zm1, zm2, zm3, zm4) \<Rightarrow>
             (JObj [(''id'', JNum (Num idc)), (''terminal'', term),
                    (''device_timestamp'', JStr zm1), (''level'', JStr zm2),
                    (''tag'', JStr zm3), (''message'', JStr zm4), (''raw'', JStr line)],
              idc + 1)
         | None \<Rightarrow>
             (case tagged content of
                Some (tm1, tm2) \<Rightarrow>
                  (JObj [(''id'', JNum (Num idc)), (''terminal'', term),
                         (''level'', JStr ''raw''), (''tag'', JStr tm1),
                         (''message'', JStr (trim tm2)), (''raw'', JStr line)],
                   idc + 1)
              | None \<Rightarrow>
                  (case selfExport content of
                     Some (m1, m2, m3, m4, m5, m6) \<Rightarrow>
                       (JObj [(''id'', (case m1 of Some d \<Rightarrow> JNum (parseInt d)
                                        | None \<Rightarrow> JNum (Num idc))),
                              (''terminal'', (case m2 of Some d \<Rightarrow> JNum (parseInt d)
                                              | None \<Rightarrow> term)),
                              (''device_timestamp'', js_or (opt_str m3) JNull),
                              (''level'', JStr m4),
                              (''tag'', js_or (opt_str m5) JNull),
                              (''message'', js_or (JStr m6) (JStr [])),
                              (''raw'', JStr line)],
                        (case m1 of Some d \<Rightarrow> idc | None \<Rightarrow> idc + 1))
                   | None \<Rightarrow>
                       (JObj [(''id'', JNum (Num idc)), (''terminal'', term),
                              (''level'', JStr ''raw''), (''message'', JStr content),
                              (''raw'', JStr line)],
                        idc + 1))))"

fun parseText_lines :: "state \<Rightarrow> string list \<Rightarrow> int \<Rightarrow> js_error + entry list" where
  "parseText_lines st [] idc = Inr []"
| "parseText_lines st (line # ls) idc =
     (let (cand, idc') = parseLine line idc in
      case normalize st cand of
        Inl err \<Rightarrow> Inl err
      | Inr e \<Rightarrow>
          (case parseText_lines st ls idc' of
             Inl err \<Rightarrow> Inl err
           | Inr es \<Rightarrow> Inr (e # es)))"

text \<open>\<^verbatim>\<open>text.replace(/\r\n/g, '\n').replace(/\r/g, '\n')\<close>\<close>

fun replace_crlf :: "string \<Rightarrow> string" where
  "replace_crlf (c # d # cs) =
     (if c = CR \<and> d = LF then LF # replace_crlf cs else c # replace_crlf (d # cs))"
| "replace_crlf cs = cs"

definition replace_cr :: "string \<Rightarrow> string" where
  "replace_cr s = map (\<lambda>c. if c = CR then LF else c) s"

definition parseText :: "state \<Rightarrow> string \<Rightarrow> js_error + entry list" where
  "parseText st text =
     parseText_lines st
       (filter (\<lambda>l. trim l \<noteq> []) (split_on LF (replace_cr (replace_crlf text)))) 0"

subsection \<open>The serializers, lines 28-55\<close>

definition columns :: "string list" where
  "columns = [''id'', ''terminal'', ''device_timestamp'', ''level'', ''tag'', ''message'']"

text \<open>\<^verbatim>\<open>e[c]\<close> for a column name.\<close>

definition getField :: "entry \<Rightarrow> string \<Rightarrow> jsval" where
  "getField e c =
     (if c = ''id'' then ident e
      else if c = ''terminal'' then terminal e
      else if c = ''device_timestamp'' then device_timestamp e
      else if c = ''level'' then level e
      else if c = ''tag'' then tag e
      else if c = ''message'' then message e
      else if c = ''raw'' then raw e
      else JUndefined)"

text \<open>\<^verbatim>\<open>s.replace(/"/g, '""')\<close>\<close>

definition double_quotes :: "string \<Rightarrow> string" where
  "double_quotes s = concat (map (\<lambda>c. if c = dquote then [dquote, dquote] else [c]) s)"

definition escCSV :: "jsval \<Rightarrow> string" where
  "escCSV v =
     (if nullish v then []
      else (let s = toString v in
        if CHR '','' \<in> set s \<or> dquote \<in> set s \<or> LF \<in> set s
        then [dquote] @ double_quotes s @ [dquote]
        else s))"

definition logsToCSV :: "entry list \<Rightarrow> string" where
  "logsToCSV es =
     join [LF] (join '','' columns # map (\<lambda>e. join '','' (map (\<lambda>c. escCSV (getField e c)) columns)) es)"

text \<open>
  One line of \<^verbatim>\<open>logsToText\<close>. \<^verbatim>\<open>toUpperCase\<close> exists on strings only: a truthy
  level that is not a string throws. \<^verbatim>\<open>join\<close> turns every part into its string.
\<close>

definition textLine :: "entry \<Rightarrow> js_error + string" where
  "textLine e =
     (case js_or (level e) (JStr ''raw'') of
        JStr lv \<Rightarrow>
          Inr (join '' ''
            ((if \<not> nullish (ident e) then [padStart 5 (toString (ident e))] else []) @
             (if \<not> nullish (terminal e) then [''T'' @ toString (terminal e)] else []) @
             (if truthy (device_timestamp e) then [toString (device_timestamp e)] else []) @
             [''['' @ take 3 (toUpperCase lv) @ '']''] @
             (if truthy (tag e) then [''<'' @ toString (tag e) @ ''>''] else []) @
             [toString (js_or (js_or (message e) (raw e)) (JStr []))]))
      | _ \<Rightarrow> Inl TypeError)"

definition logsToText :: "entry list \<Rightarrow> js_error + string" where
  "logsToText es =
     (case map_result textLine es of Inl err \<Rightarrow> Inl err | Inr ls \<Rightarrow> Inr (join [LF] ls))"

subsection \<open>The import, lines 204-247\<close>

text \<open>
  What the import shows or announces: an alert (its text kept in structured form:
  \<^verbatim>\<open>Failed to parse FORMAT: message\<close> or \<^verbatim>\<open>No log entries found in file\<close>), and
  the calls of the three callbacks. A callback the caller did not pass is not called:
  \<open>callbacks\<close> says which were passed.
\<close>

datatype alert = FailedToParse string js_error | NoLogEntries

datatype event = Alert alert | TagsChanged | TerminalsChanged | CountChanged

record callbacks =
  onTagsChanged :: bool
  onTerminalsChanged :: bool
  onCountChanged :: bool

text \<open>
  The table \<^verbatim>\<open>parsers\<close>, line 174, at its own three keys; the lookup of a name
  that every object inherits (\<^verbatim>\<open>toString\<close>, \<^verbatim>\<open>constructor\<close>) is not modelled.
\<close>

definition parsers ::
  "(string \<Rightarrow> js_error + jsval) \<Rightarrow> string \<Rightarrow> (state \<Rightarrow> string \<Rightarrow> js_error + entry list) option"
  where
  "parsers json_parse format =
     (if format = ''json'' then Some (parseJSON json_parse)
      else if format = ''csv'' then Some parseCSV
      else if format = ''txt'' then Some parseText
      else None)"

text \<open>The bulk load, lines 224-237: the state and the two flags after each entry.\<close>

fun bulkLoad :: "entry list \<Rightarrow> state \<times> bool \<times> bool \<Rightarrow> state \<times> bool \<times> bool" where
  "bulkLoad [] acc = acc"
| "bulkLoad (e # es) (st, newTags, newTerminals) =
     (let st1 = st\<lparr>logs := logs st @ [e]\<rparr>;
          (st2, newTags') =
            (if truthy (tag e) \<and> tag e \<notin> tags st1
             then (st1\<lparr>tags := insert (tag e) (tags st1)\<rparr>, True)
             else (st1, newTags));
          termId = js_coalesce (terminal e) (JNum (Num 0));
          (st3, newTerminals') =
            (if terminals st2 termId = None
             then (st2\<lparr>terminals := (terminals st2)(termId \<mapsto> 0)\<rparr>, True)
             else (st2, newTerminals));
          st4 = st3\<lparr>terminals :=
                   (terminals st3)(termId \<mapsto>
                      (case terminals st3 termId of Some c \<Rightarrow> c + 1 | None \<Rightarrow> 1))\<rparr>
      in bulkLoad es (st4, newTags', newTerminals'))"

text \<open>
  \<^verbatim>\<open>importLogs\<close> from the point where the file's text and the format are known
  (line 204). The result is what the call returns (\<open>Some n\<close> the count,
  \<open>None\<close> for \<^verbatim>\<open>undefined\<close>) or the exception it ends with, the state after the
  call, and the alerts and callback calls in order.
\<close>

definition importLogs ::
  "(string \<Rightarrow> js_error + jsval) \<Rightarrow> callbacks \<Rightarrow> string \<Rightarrow> string \<Rightarrow> state
     \<Rightarrow> (js_error + nat option) \<times> state \<times> event list" where
  "importLogs json_parse cbs format text st =
     (case parsers json_parse format of
        None \<Rightarrow> (Inl (Error (''Unknown format: '' @ format)), st, [])
      | Some parser \<Rightarrow>
          (case parser st text of
             Inl err \<Rightarrow> (Inr None, st, [Alert (FailedToParse (toUpperCase format) err)])
           | Inr entries \<Rightarrow>
               if length entries = 0 then (Inr None, st, [Alert NoLogEntries])
               else
                 (let (st1, newTags, newTerminals) = bulkLoad entries (clearLogs st, False, False);
                      (thrown, st2) = rebuild st1
                  in case thrown of
                       Some err \<Rightarrow> (Inl err, st2, [])
                     | None \<Rightarrow>
                         (Inr (Some (length entries)), st2,
                          (if onTagsChanged cbs \<and> newTags then [TagsChanged] else []) @
                          (if onTerminalsChanged cbs \<and> newTerminals then [TerminalsChanged] else []) @
                          (if onCountChanged cbs then [CountChanged] else [])))))"

section \<open>Example inputs\<close>

text \<open>The line of the Zephyr format that the source quotes, a state that holds one
  entry, and a caller that passes all three callbacks.\<close>

definition zephyr_example :: string where
  "zephyr_example = ''[00:29:56.296,813] <inf> ble_manager: IU 3 ON''"

definition example_entry :: entry where
  "example_entry =
     \<lparr>ident = JNum (Num 4), terminal = JNum (Num 1), device_timestamp = JNull,
      level = JStr ''info'', tag = JStr ''net'', message = JStr ''up'', raw = JStr ''up''\<rparr>"

definition example_state :: state where
  "example_state =
     initial_state\<lparr>logs := [example_entry], tags := {JStr ''net''},
                   terminals := [JNum (Num 1) \<mapsto> 1]\<rparr>"

definition all_callbacks :: callbacks where
  "all_callbacks = \<lparr>onTagsChanged = True, onTerminalsChanged = True, onCountChanged = True\<rparr>"

text \<open>
  What the engine compiles a pattern without metacharacters to under the flags
  \<^verbatim>\<open>gi\<close>: the search for the first occurrence of the text at or after the start
  index, letter case ignored; the result is the index where the occurrence ends.
\<close>

fun literal_search :: "string \<Rightarrow> string \<Rightarrow> nat \<Rightarrow> nat option" where
  "literal_search p [] pos = (if p = [] then Some pos else None)"
| "literal_search p (c # cs) pos =
     (if startsWith p (c # cs) then Some (pos + length p) else literal_search p cs (Suc pos))"

definition compile_literal :: "string \<Rightarrow> (string \<Rightarrow> nat \<Rightarrow> nat option) option" where
  "compile_literal p =
     Some (\<lambda>s i. literal_search (toLowerCase p) (drop i (toLowerCase s)) i)"

text \<open>The store in filter mode with the pattern \<^verbatim>\<open>ERR\<close>, and an entry whose raw
  text contains the pattern.\<close>

definition filter_state :: state where
  "filter_state = setSearch compile_literal ''ERR'' (setSearchMode ''filter'' initial_state)"

definition error_entry :: entry where
  "error_entry =
     \<lparr>ident = JNum (Num 0), terminal = JNum (Num 0), device_timestamp = JNull,
      level = JStr ''error'', tag = JNull, message = JStr ''ERR x'', raw = JStr ''ERR x''\<rparr>"

text \<open>
  The two parts of the state that are configuration and that no operation on entries
  is meant to touch: the filter settings, and the search settings (mode, what the
  compiled pattern matches, match list, current-match pointer). The cursor of the
  compiled pattern is not a setting.
\<close>

definition filter_config ::
  "state \<Rightarrow> jsval set \<times> jsval set \<times> jsval set \<times> jsval set option" where
  "filter_config st = (enabledLevels st, activeTags st, excludedTags st, activeTerminals st)"

definition search_config ::
  "state \<Rightarrow> string \<times> (string \<Rightarrow> nat \<Rightarrow> nat option) option \<times> jsval list \<times> int" where
  "search_config st =
     (searchMode st, map_option re_exec (searchRe st), searchMatches st, searchCurrent st)"

text \<open>The same store with terminal 1 selected, and a second entry, of terminal 1.\<close>

definition terminal_filter_state :: state where
  "terminal_filter_state = filter_state\<lparr>activeTerminals := Some {JNum (Num 1)}\<rparr>"

definition short_error_entry :: entry where
  "short_error_entry =
     \<lparr>ident = JNum (Num 1), terminal = JNum (Num 1), device_timestamp = JNull,
      level = JStr ''error'', tag = JNull, message = JStr ''ERR'', raw = JStr ''ERR''\<rparr>"

section \<open>The entries of the round-trip statements\<close>

text \<open>
  The data model's types for an entry's fields, as far as the export formats can carry
  them. \<open>safe_integer\<close> is \<^verbatim>\<open>Number.isSafeInteger\<close>. \<open>csv_text v\<close> is the text
  that \<^verbatim>\<open>escCSV\<close> writes for \<open>v\<close> before quoting. A text is quoted on export when
  it holds a comma, a double quote or a line feed; \<open>csv_text_ok\<close> asks that a text
  with a carriage return is one of these.
\<close>

definition safe_integer :: "jsval \<Rightarrow> bool" where
  "safe_integer v = (case v of JNum (Num i) \<Rightarrow> \<bar>i\<bar> \<le> 9007199254740991 | _ \<Rightarrow> False)"

definition csv_text :: "jsval \<Rightarrow> string" where
  "csv_text v = (if nullish v then [] else toString v)"

definition quoted_on_export :: "string \<Rightarrow> bool" where
  "quoted_on_export s = (CHR '','' \<in> set s \<or> dquote \<in> set s \<or> LF \<in> set s)"

definition csv_text_ok :: "string \<Rightarrow> bool" where
  "csv_text_ok s = (CR \<in> set s \<longrightarrow> quoted_on_export s)"

fun csv_optional :: "jsval \<Rightarrow> bool" where
  "csv_optional JNull = True"
| "csv_optional (JStr s) = (s \<noteq> [] \<and> csv_text_ok s)"
| "csv_optional v = False"

definition csv_entry :: "entry \<Rightarrow> bool" where
  "csv_entry e =
     (safe_integer (ident e) \<and> safe_integer (terminal e)
      \<and> csv_optional (device_timestamp e)
      \<and> level e \<in> JStr ` set level_names
      \<and> csv_optional (tag e)
      \<and> (case message e of JStr m \<Rightarrow> csv_text_ok m | _ \<Rightarrow> False))"

definition schema_fields :: "entry \<Rightarrow> jsval \<times> jsval \<times> jsval \<times> jsval \<times> jsval \<times> jsval" where
  "schema_fields e = (ident e, terminal e, device_timestamp e, level e, tag e, message e)"

text \<open>An entry whose message holds a comma, a double quote, a line feed and a quoted
  carriage return, and one whose message holds a carriage return and nothing that
  makes \<^verbatim>\<open>escCSV\<close> quote it.\<close>

definition quoted_entry :: entry where
  "quoted_entry =
     \<lparr>ident = JNum (Num 12), terminal = JNum (Num 3), device_timestamp = JStr ''00:29:56.296,813'',
      level = JStr ''warn'', tag = JStr ''a,b'',
      message = JStr (''say \"hi\", then'' @ [CR, LF] @ ''go''), raw = JStr ''x''\<rparr>"

definition cr_entry :: entry where
  "cr_entry =
     \<lparr>ident = JNum (Num 0), terminal = JNum (Num 0), device_timestamp = JNull,
      level = JStr ''raw'', tag = JNull, message = JStr (''a'' @ [CR] @ ''b''), raw = JStr []\<rparr>"

text \<open>
  The entries that the plain-text round trip is stated for: ids and terminals that are
  safe integers and not negative, a timestamp that is \<^verbatim>\<open>null\<close> or a non-empty
  string of digits, colons, dots and commas, a level among the five names, a tag that
  is \<^verbatim>\<open>null\<close> or a non-empty string without a line break, and a message that is
  a string without a line break, with an empty \<^verbatim>\<open>raw\<close> where the message is
  empty.
\<close>

definition no_line_break :: "string \<Rightarrow> bool" where
  "no_line_break s = (\<not> list_ex is_line_terminator s)"

definition nonneg_safe_integer :: "jsval \<Rightarrow> bool" where
  "nonneg_safe_integer v =
     (case v of JNum (Num i) \<Rightarrow> 0 \<le> i \<and> i \<le> 9007199254740991 | _ \<Rightarrow> False)"

fun text_stamp :: "jsval \<Rightarrow> bool" where
  "text_stamp JNull = True"
| "text_stamp (JStr s) = (s \<noteq> [] \<and> list_all is_tschar s)"
| "text_stamp v = False"

fun text_tag :: "jsval \<Rightarrow> bool" where
  "text_tag JNull = True"
| "text_tag (JStr s) = (s \<noteq> [] \<and> no_line_break s)"
| "text_tag v = False"

definition text_entry :: "entry \<Rightarrow> bool" where
  "text_entry e =
     (nonneg_safe_integer (ident e) \<and> nonneg_safe_integer (terminal e)
      \<and> text_stamp (device_timestamp e)
      \<and> level e \<in> JStr ` set level_names
      \<and> text_tag (tag e)
      \<and> (case message e of
            JStr m \<Rightarrow> no_line_break m \<and> (m = [] \<longrightarrow> raw e = JStr [])
          | _ \<Rightarrow> False))"

text \<open>The level as \<^verbatim>\<open>logsToText\<close> writes it: three letters, upper case.\<close>

definition level_marks :: "string list" where
  "level_marks = [''ERR'', ''WAR'', ''INF'', ''DEB'', ''RAW'']"

text \<open>An entry whose message has two lines.\<close>

definition two_line_entry :: entry where
  "two_line_entry =
     \<lparr>ident = JNum (Num 7), terminal = JNum (Num 3), device_timestamp = JNull,
      level = JStr ''info'', tag = JNull, message = JStr (''a'' @ [LF] @ ''b''),
      raw = JStr (''a'' @ [LF] @ ''b'')\<rparr>"

text \<open>An entry with a timestamp that is not made of digits, colons, dots and commas.\<close>

definition dated_entry :: entry where
  "dated_entry =
     \<lparr>ident = JNum (Num 7), terminal = JNum (Num 3), device_timestamp = JStr ''2024-01-01'',
      level = JStr ''info'', tag = JNull, message = JStr ''up'', raw = JStr ''up''\<rparr>"

text \<open>An entry with a timestamp and a tag that the plain-text format can carry.\<close>

definition stamped_entry :: entry where
  "stamped_entry =
     \<lparr>ident = JNum (Num 12), terminal = JNum (Num 3), device_timestamp = JStr ''00:29:56.296,813'',
      level = JStr ''warn'', tag = JStr ''a,b'', message = JStr ''say hi'', raw = JStr ''x''\<rparr>"

text \<open>
  An entry that \<open>renderLine\<close> can render: the message and the level are strings, and
  the tag and the timestamp are strings unless they are falsy.
\<close>

definition renderable :: "entry \<Rightarrow> bool" where
  "renderable e =
     (is_string (message e) \<and> is_string (level e)
      \<and> (truthy (tag e) \<longrightarrow> is_string (tag e))
      \<and> (truthy (device_timestamp e) \<longrightarrow> is_string (device_timestamp e)))"

text \<open>
  Two JSON files, the empty array and an array with one object whose message is the
  number 5, and what \<^verbatim>\<open>JSON.parse\<close> returns on them.
\<close>

definition empty_array_json :: string where
  "empty_array_json = ''[]''"

definition number_message_json :: string where
  "number_message_json = ''[{\"message\":5}]''"

definition json_examples :: "string \<Rightarrow> js_error + jsval" where
  "json_examples t =
     (if t = empty_array_json then Inr (JArr [])
      else if t = number_message_json then Inr (JArr [JObj [(''message'', JNum (Num 5))]])
      else Inl SyntaxError)"

text \<open>Three lines of device output with terminal prefixes and tags.\<close>

definition three_lines :: string where
  "three_lines = ''05> <net>up'' @ [LF] @ ''06> <ble>on'' @ [LF] @ ''07> <net>down''"

section \<open>Properties of the parsers\<close>

subsection \<open>Levels\<close>

lemma normalize_level:
  "normalize st obj = Inr e \<Longrightarrow>
     level e \<in> {JStr ''error'', JStr ''warn'', JStr ''info'', JStr ''debug'', JStr ''raw''}"
  by (auto simp: normalize_def level_names_def Let_def split: if_splits jsval.splits)

lemma map_result_Inr_set:
  "map_result f xs = Inr ys \<Longrightarrow> y \<in> set ys \<Longrightarrow> \<exists>x \<in> set xs. f x = Inr y"
  by (induction xs arbitrary: ys) (auto split: sum.splits)

lemma parseText_lines_level:
  "parseText_lines st ls idc = Inr es \<Longrightarrow> e \<in> set es \<Longrightarrow>
     level e \<in> {JStr ''error'', JStr ''warn'', JStr ''info'', JStr ''debug'', JStr ''raw''}"
proof (induction ls arbitrary: idc es)
  case Nil
  then show ?case by simp
next
  case (Cons line ls)
  obtain cand idc' where pl: "parseLine line idc = (cand, idc')"
    by (cases "parseLine line idc")
  from Cons.prems(1) pl obtain e0 es0 where
    n: "normalize st cand = Inr e0" and r: "parseText_lines st ls idc' = Inr es0"
    and es: "es = e0 # es0"
    by (auto split: sum.splits)
  from Cons.prems(2) es have "e = e0 \<or> e \<in> set es0" by simp
  then show ?case
  proof
    assume "e = e0"
    with n show ?thesis using normalize_level by blast
  next
    assume "e \<in> set es0"
    with Cons.IH [OF r] show ?thesis .
  qed
qed

text \<open>
  Claim C4. Whatever the text, the state and the platform's JSON decoder: when one of
  the three parsers of the table \<^verbatim>\<open>parsers\<close> returns entries, the level of each
  entry is one of \<^verbatim>\<open>error\<close>, \<^verbatim>\<open>warn\<close>, \<^verbatim>\<open>info\<close>, \<^verbatim>\<open>debug\<close>, \<^verbatim>\<open>raw\<close>.
\<close>

theorem C4_parsed_levels:
  assumes "parsers json_parse format = Some parser"
    and "parser st text = Inr es"
    and "e \<in> set es"
  shows "level e \<in> {JStr ''error'', JStr ''warn'', JStr ''info'', JStr ''debug'', JStr ''raw''}"
proof -
  from assms(1) consider
      (js) "parser = parseJSON json_parse"
    | (cs) "parser = parseCSV"
    | (tx) "parser = parseText"
    by (auto simp: parsers_def split: if_splits)
  then show ?thesis
  proof cases
    case js
    with assms(2) obtain arr where "map_result (normalize st) arr = Inr es"
      by (auto simp: parseJSON_def split: sum.splits jsval.splits)
    from map_result_Inr_set [OF this assms(3)] show ?thesis
      using normalize_level by blast
  next
    case cs
    with assms(2) have
      "map_result
         (\<lambda>line. normalize st
            (JObj (row_object (parseCSVRow (hd (splitCSVLines text))) (parseCSVRow line) [])))
         (filter (\<lambda>l. trim l \<noteq> []) (tl (splitCSVLines text))) = Inr es"
      by (auto simp: parseCSV_def Let_def split: if_splits)
    from map_result_Inr_set [OF this assms(3)] show ?thesis
      using normalize_level by blast
  next
    case tx
    with assms(2) show ?thesis
      using parseText_lines_level [OF _ assms(3)] by (simp add: parseText_def)
  qed
qed

theorem C4_parsed_levels_witness:
  "parsers (\<lambda>t. Inl SyntaxError) ''csv'' = Some parseCSV
   \<and> parseCSV initial_state (''level'' @ [LF] @ ''WARN'') =
       Inr [\<lparr>ident = JNum (Num 0), terminal = JNum (Num 0), device_timestamp = JNull,
              level = JStr ''warn'', tag = JNull, message = JStr [], raw = JStr []\<rparr>]
   \<and> level \<lparr>ident = JNum (Num 0), terminal = JNum (Num 0), device_timestamp = JNull,
              level = JStr ''warn'', tag = JNull, message = JStr [], raw = JStr []\<rparr>
       \<in> {JStr ''error'', JStr ''warn'', JStr ''info'', JStr ''debug'', JStr ''raw''}"
proof -
  have p: "parsers (\<lambda>t. Inl SyntaxError) ''csv'' = Some parseCSV"
    by (simp add: parsers_def)
  have r: "parseCSV initial_state (''level'' @ [LF] @ ''WARN'') =
       Inr [\<lparr>ident = JNum (Num 0), terminal = JNum (Num 0), device_timestamp = JNull,
              level = JStr ''warn'', tag = JNull, message = JStr [], raw = JStr []\<rparr>]"
    by code_simp
  from C4_parsed_levels [OF p r] p r show ?thesis by simp
qed

subsection \<open>The Zephyr example line\<close>

text \<open>
  Claim C3, as the code has it. The Zephyr expression captures the timestamp, the
  abbreviation \<^verbatim>\<open>inf\<close>, the tag and the message of the example line; the
  abbreviation goes to \<open>normalize\<close> and not to \<open>levelFromAbbrev\<close> (which would
  give \<^verbatim>\<open>info\<close>), and \<open>normalize\<close> keeps the five level names only: the entry's
  level is \<^verbatim>\<open>raw\<close>. Timestamp, tag and message are as the claim says; the id is the
  counter's \<open>0\<close> and the terminal is \<open>0\<close>.
\<close>

theorem C3_zephyr_line:
  "zephyr zephyr_example = Some (''00:29:56.296,813'', ''inf'', ''ble_manager'', ''IU 3 ON'')
   \<and> levelFromAbbrev (JStr ''inf'') = ''info''
   \<and> parseText st zephyr_example =
       Inr [\<lparr>ident = JNum (Num 0), terminal = JNum (Num 0),
              device_timestamp = JStr ''00:29:56.296,813'', level = JStr ''raw'',
              tag = JStr ''ble_manager'', message = JStr ''IU 3 ON'',
              raw = JStr zephyr_example\<rparr>]"
  unfolding zephyr_example_def by code_simp

text \<open>The claim as stated fails: the level of the parsed entry is not \<^verbatim>\<open>inf\<close>.\<close>

theorem C3_level_is_not_the_abbreviation:
  "map level (case parseText initial_state zephyr_example of Inr es \<Rightarrow> es | Inl err \<Rightarrow> [])
     = [JStr ''raw'']
   \<and> JStr ''raw'' \<noteq> JStr ''inf''"
  unfolding zephyr_example_def by code_simp

subsection \<open>Ids of entries that carry none\<close>

text \<open>
  Claim C5 at a concrete input. A CSV file with the single column \<^verbatim>\<open>message\<close> and
  two rows, and a JSON array of two objects without \<^verbatim>\<open>id\<close>, parsed while the store
  is empty: both entries get the id \<open>0\<close>, the length of the store's log sequence at
  the time of the parse. The plain-text parser numbers its lines with a counter.
\<close>

theorem C5_same_id_for_all:
  "map ident (case parseCSV initial_state (''message'' @ [LF] @ ''a'' @ [LF] @ ''b'')
              of Inr es \<Rightarrow> es | Inl err \<Rightarrow> []) = [JNum (Num 0), JNum (Num 0)]
   \<and> map ident (case parseJSON
                 (\<lambda>t. Inr (JArr [JObj [(''message'', JStr ''a'')], JObj [(''message'', JStr ''b'')]]))
                 initial_state ''[{\"message\":\"a\"},{\"message\":\"b\"}]''
              of Inr es \<Rightarrow> es | Inl err \<Rightarrow> []) = [JNum (Num 0), JNum (Num 0)]
   \<and> map ident (case parseText initial_state (''a'' @ [LF] @ ''b'')
              of Inr es \<Rightarrow> es | Inl err \<Rightarrow> []) = [JNum (Num 0), JNum (Num 1)]"
  by code_simp

section \<open>Properties of the store\<close>

text \<open>
  Claim C9, as the code has it. \<open>clearLogs\<close> puts the log sequence, the tag set, the
  terminal counts, the active and excluded tags, the terminal selection, the compiled
  pattern, the match list and the current-match pointer back to their initial values.
  The enabled levels, the search mode and the auto-scroll flag stay as they are.
\<close>

theorem C9_clear_resets:
  "clearLogs st =
     initial_state\<lparr>enabledLevels := enabledLevels st, autoScroll := autoScroll st,
                   searchMode := searchMode st\<rparr>"
  by (simp add: clearLogs_def initial_state_def)

text \<open>The claim as stated fails: a level switched off before the clear is still off
  after it.\<close>

theorem C9_levels_survive_clear:
  "enabledLevels (clearLogs (initial_state\<lparr>enabledLevels := {JStr ''error''}\<rparr>)) = {JStr ''error''}
   \<and> enabledLevels initial_state \<noteq> {JStr ''error''}
   \<and> clearLogs (initial_state\<lparr>enabledLevels := {JStr ''error''}\<rparr>) \<noteq> initial_state"
  by (auto simp: clearLogs_def initial_state_def)

text \<open>
  Claim C1. An import whose format has no parser ends with the exception
  \<^verbatim>\<open>Unknown format\<close>; one whose parser throws shows the alert \<^verbatim>\<open>Failed to parse\<close>;
  one whose parser returns no entry shows the alert \<^verbatim>\<open>No log entries found\<close>. In
  all three cases the state after the call is the state before it, field by field, and
  no callback is called.
\<close>

theorem C1_failed_import:
  "(parsers json_parse format = None \<longrightarrow>
      importLogs json_parse cbs format text st =
        (Inl (Error (''Unknown format: '' @ format)), st, []))
   \<and> (\<forall>parser err. parsers json_parse format = Some parser \<and> parser st text = Inl err \<longrightarrow>
      importLogs json_parse cbs format text st =
        (Inr None, st, [Alert (FailedToParse (toUpperCase format) err)]))
   \<and> (\<forall>parser. parsers json_parse format = Some parser \<and> parser st text = Inr [] \<longrightarrow>
      importLogs json_parse cbs format text st = (Inr None, st, [Alert NoLogEntries]))"
  by (simp add: importLogs_def)

theorem C1_failed_import_witness:
  "importLogs (\<lambda>t. Inl SyntaxError) all_callbacks ''xml'' ''<a/>'' example_state =
     (Inl (Error ''Unknown format: xml''), example_state, [])
   \<and> importLogs (\<lambda>t. Inl SyntaxError) all_callbacks ''csv'' ''id,level'' example_state =
     (Inr None, example_state,
      [Alert (FailedToParse ''CSV''
                (Error ''CSV must have a header row and at least one data row''))])
   \<and> importLogs (\<lambda>t. Inl SyntaxError) all_callbacks ''txt'' [LF] example_state =
     (Inr None, example_state, [Alert NoLogEntries])"
proof -
  let ?jp = "\<lambda>t::string. (Inl SyntaxError :: js_error + jsval)"
  have a: "parsers ?jp ''xml'' = None"
    by (simp add: parsers_def)
  have b: "parsers ?jp ''csv'' = Some parseCSV"
    by (simp add: parsers_def)
  have b': "parseCSV example_state ''id,level'' =
      Inl (Error ''CSV must have a header row and at least one data row'')"
    by (simp add: parseCSV_def splitCSVLines_def)
  have c: "parsers ?jp ''txt'' = Some parseText"
    by (simp add: parsers_def)
  have c': "parseText example_state [LF] = Inr []"
    by (simp add: parseText_def replace_cr_def trim_def is_space_def)
  have u: "toUpperCase ''csv'' = ''CSV''"
    by (simp add: toUpperCase_def upper_char_def)
  from C1_failed_import [of ?jp "''xml''" all_callbacks "''<a/>''" example_state] a
  have 1: "importLogs ?jp all_callbacks ''xml'' ''<a/>'' example_state =
     (Inl (Error (''Unknown format: '' @ ''xml'')), example_state, [])"
    by blast
  from C1_failed_import [of ?jp "''csv''" all_callbacks "''id,level''" example_state] b b'
  have 2: "importLogs ?jp all_callbacks ''csv'' ''id,level'' example_state =
     (Inr None, example_state,
      [Alert (FailedToParse (toUpperCase ''csv'')
                (Error ''CSV must have a header row and at least one data row''))])"
    by blast
  from C1_failed_import [of ?jp "''txt''" all_callbacks "[LF]" example_state] c c'
  have 3: "importLogs ?jp all_callbacks ''txt'' [LF] example_state =
     (Inr None, example_state, [Alert NoLogEntries])"
    by blast
  from 1 2 3 u show ?thesis by simp
qed

subsection \<open>The visibility test\<close>

text \<open>
  Claim C6 at a concrete input: filter mode, the pattern \<^verbatim>\<open>ERR\<close> set by
  \<open>setSearch\<close>, and an entry whose raw text is \<^verbatim>\<open>ERR x\<close>. The first call of
  \<open>matches\<close> answers true and leaves the pattern's cursor at 3; the second call on
  the same entry searches from there and answers false. \<open>rebuild\<close>'s filter shows one
  of two such entries.
\<close>

theorem C6_second_test_differs:
  "fst (matches error_entry filter_state) = True
   \<and> fst (matches error_entry (snd (matches error_entry filter_state))) = False
   \<and> map_option lastIndex (searchRe filter_state) = Some 0
   \<and> map_option lastIndex (searchRe (snd (matches error_entry filter_state))) = Some 3
   \<and> fst (filter_matches [error_entry, error_entry] filter_state) = [error_entry]"
  by code_simp

subsection \<open>What the visibility test and the renderer leave alone\<close>

lemma matches_frame:
  "matches e st = (v, st') \<Longrightarrow>
     logs st' = logs st \<and> tags st' = tags st \<and> terminals st' = terminals st
     \<and> autoScroll st' = autoScroll st
     \<and> filter_config st' = filter_config st \<and> search_config st' = search_config st"
  by (auto simp: matches_def regexp_test_def filter_config_def search_config_def Let_def
      split: if_splits option.splits prod.splits)

lemma renderLine_frame:
  "renderLine e st = (r, st') \<Longrightarrow>
     logs st' = logs st \<and> tags st' = tags st \<and> terminals st' = terminals st
     \<and> autoScroll st' = autoScroll st
     \<and> filter_config st' = filter_config st \<and> search_config st' = search_config st"
  by (auto simp: renderLine_def filter_config_def search_config_def Let_def
      split: if_splits option.splits)

lemma filter_matches_logs:
  "filter_matches es st = (vs, st') \<Longrightarrow> logs st' = logs st"
proof (induction es arbitrary: st vs st')
  case Nil
  then show ?case by simp
next
  case (Cons e es)
  obtain v st1 where m: "matches e st = (v, st1)" by (cases "matches e st")
  obtain ws st2 where f: "filter_matches es st1 = (ws, st2)" by (cases "filter_matches es st1")
  from Cons.prems m f have "st' = st2" by simp
  with Cons.IH [OF f] matches_frame [OF m] show ?case by simp
qed

lemma render_all_logs:
  "render_all es st = (r, st') \<Longrightarrow> logs st' = logs st"
proof (induction es arbitrary: st)
  case Nil
  then show ?case by simp
next
  case (Cons e es)
  obtain r1 st1 where rl: "renderLine e st = (r1, st1)" by (cases "renderLine e st")
  show ?case
  proof (cases r1)
    case None
    with Cons.prems rl have "render_all es st1 = (r, st')" by simp
    from Cons.IH [OF this] renderLine_frame [OF rl] show ?thesis by simp
  next
    case (Some err)
    with Cons.prems rl have "st' = st1" by simp
    with renderLine_frame [OF rl] show ?thesis by simp
  qed
qed

lemma rebuild_logs: "rebuild st = (r, st') \<Longrightarrow> logs st' = logs st"
proof -
  assume a: "rebuild st = (r, st')"
  obtain vis st1 where f: "filter_matches (logs st) st = (vis, st1)"
    by (cases "filter_matches (logs st) st")
  with a have "render_all vis st1 = (r, st')" by (simp add: rebuild_def)
  from render_all_logs [OF this] filter_matches_logs [OF f] show ?thesis by simp
qed

lemma bulkLoad_logs:
  "bulkLoad es (st, a, b) = (st', a', b') \<Longrightarrow> logs st' = logs st @ es"
proof (induction es arbitrary: st a b)
  case Nil
  then show ?case by simp
next
  case (Cons e es)
  from Cons.prems obtain st4 a4 b4 where
    step: "bulkLoad es (st4, a4, b4) = (st', a', b')" and l: "logs st4 = logs st @ [e]"
    by (auto simp: Let_def split: if_splits)
  from Cons.IH [OF step] l show ?case by simp
qed

subsection \<open>The streaming append\<close>

text \<open>
  \<open>appendEntry e\<close> puts \<open>e\<close> itself at the end of the log sequence, adds
  \<open>e\<close>'s tag to the tag set when the tag is truthy, and raises the count of \<open>e\<close>'s
  terminal (\<open>0\<close> for a terminal that is \<^verbatim>\<open>null\<close> or absent) by one, starting
  from \<open>0\<close> for a terminal not counted yet; the map update leaves every other count
  as it was. The filter settings, the search mode, what the compiled pattern matches,
  the match list, the current-match pointer and the auto-scroll flag are those of the
  state before the call. When the call returns its pair of flags, \<^verbatim>\<open>isNewTag\<close> is
  truthy exactly when \<open>e\<close> has a truthy tag that was not in the tag set, and
  \<^verbatim>\<open>isNewTerminal\<close> is true exactly when \<open>e\<close>'s terminal had no count. The cursor
  of the compiled pattern is not covered by this lemma.
\<close>

lemma appendEntry_frame:
  assumes "appendEntry e st = (res, st')"
  shows "logs st' = logs st @ [e]
     \<and> tags st' = (if truthy (tag e) then insert (tag e) (tags st) else tags st)
     \<and> terminals st' =
         (terminals st)(js_coalesce (terminal e) (JNum (Num 0)) \<mapsto>
            (case terminals st (js_coalesce (terminal e) (JNum (Num 0))) of
               None \<Rightarrow> 0 | Some c \<Rightarrow> c) + 1)
     \<and> filter_config st' = filter_config st
     \<and> search_config st' = search_config st
     \<and> autoScroll st' = autoScroll st
     \<and> (\<forall>isNewTag isNewTerminal. res = Inr (isNewTag, isNewTerminal) \<longrightarrow>
           (truthy isNewTag \<longleftrightarrow> truthy (tag e) \<and> tag e \<notin> tags st)
           \<and> (isNewTerminal \<longleftrightarrow> terminals st (js_coalesce (terminal e) (JNum (Num 0))) = None))"
proof -
  define termId where "termId = js_coalesce (terminal e) (JNum (Num 0))"
  define st4 where "st4 =
     st\<lparr>logs := logs st @ [e],
        tags := (if truthy (tag e) then insert (tag e) (tags st) else tags st),
        terminals := (terminals st)(termId \<mapsto>
            (case terminals st termId of None \<Rightarrow> 0 | Some c \<Rightarrow> c) + 1)\<rparr>"
  define flags where "flags =
     ((if truthy (tag e) then JBool (tag e \<notin> tags st) else tag e), terminals st termId = None)"
  obtain visible st5 where m: "matches e st4 = (visible, st5)" by (cases "matches e st4")
  obtain r st6 where rl: "renderLine e st5 = (r, st6)" by (cases "renderLine e st5")
  have body: "appendEntry e st =
     (if visible then (case r of Some err \<Rightarrow> (Inl err, st6) | None \<Rightarrow> (Inr flags, st6))
      else (Inr flags, st5))"
    using m rl
    by (auto simp: appendEntry_def Let_def st4_def flags_def termId_def
        split: option.splits)
  have st4_frame: "logs st4 = logs st @ [e]
     \<and> tags st4 = (if truthy (tag e) then insert (tag e) (tags st) else tags st)
     \<and> terminals st4 = (terminals st)(termId \<mapsto>
            (case terminals st termId of None \<Rightarrow> 0 | Some c \<Rightarrow> c) + 1)
     \<and> filter_config st4 = filter_config st \<and> search_config st4 = search_config st
     \<and> autoScroll st4 = autoScroll st"
    by (simp add: st4_def filter_config_def search_config_def)
  have st': "st' = st5 \<or> st' = st6"
    using assms body by (auto split: if_splits option.splits)
  have frame: "logs st' = logs st4 \<and> tags st' = tags st4 \<and> terminals st' = terminals st4
     \<and> autoScroll st' = autoScroll st4
     \<and> filter_config st' = filter_config st4 \<and> search_config st' = search_config st4"
    using st' matches_frame [OF m] renderLine_frame [OF rl] by auto
  have res: "\<forall>a b. res = Inr (a, b) \<longrightarrow> (a, b) = flags"
    using assms body by (auto split: if_splits option.splits)
  have fl: "truthy (fst flags) \<longleftrightarrow> truthy (tag e) \<and> tag e \<notin> tags st"
    by (simp add: flags_def)
  have fl2: "snd flags \<longleftrightarrow> terminals st termId = None"
    by (simp add: flags_def)
  from res fl fl2 have
    "\<forall>a b. res = Inr (a, b) \<longrightarrow>
       (truthy a \<longleftrightarrow> truthy (tag e) \<and> tag e \<notin> tags st) \<and> (b \<longleftrightarrow> terminals st termId = None)"
    by (metis fst_conv snd_conv)
  with frame st4_frame show ?thesis
    unfolding termId_def by simp
qed

text \<open>
  Claim C10 at a concrete input: filter mode with the pattern \<^verbatim>\<open>ERR\<close>, terminal 1
  selected, and an entry of terminal 0 whose raw text is \<^verbatim>\<open>ERR x\<close>. The entry is
  appended and counted; the visibility test inside \<open>appendEntry\<close> runs the pattern
  before it looks at the terminal, so the call leaves the pattern's cursor at 3. An
  entry of terminal 1 with the raw text \<^verbatim>\<open>ERR\<close> is visible in the state before the
  call and hidden in the state after it.
\<close>

theorem C10_append_moves_the_cursor:
  "fst (appendEntry error_entry terminal_filter_state) = Inr (JNull, True)
   \<and> map_option lastIndex (searchRe terminal_filter_state) = Some 0
   \<and> map_option lastIndex (searchRe (snd (appendEntry error_entry terminal_filter_state))) = Some 3
   \<and> fst (matches short_error_entry terminal_filter_state) = True
   \<and> fst (matches short_error_entry (snd (appendEntry error_entry terminal_filter_state))) = False"
  by code_simp

subsection \<open>The notifications of an import\<close>

lemma filter_matches_subset: "set (fst (filter_matches es st)) \<subseteq> set es"
proof (induction es arbitrary: st)
  case Nil
  then show ?case by simp
next
  case (Cons e es)
  obtain v st1 where m: "matches e st = (v, st1)" by (cases "matches e st")
  obtain vs st2 where f: "filter_matches es st1 = (vs, st2)" by (cases "filter_matches es st1")
  from Cons.IH [of st1] f have "set vs \<subseteq> set es" by simp
  with m f show ?case by auto
qed

lemma renderLine_renderable: "renderable e \<Longrightarrow> fst (renderLine e st) = None"
  by (simp add: renderLine_def renderable_def Let_def)

lemma render_all_renderable:
  "\<forall>e \<in> set es. renderable e \<Longrightarrow> fst (render_all es st) = None"
proof (induction es arbitrary: st)
  case Nil
  then show ?case by simp
next
  case (Cons e es)
  obtain r st1 where r: "renderLine e st = (r, st1)" by (cases "renderLine e st")
  from Cons.prems have "renderable e" by simp
  from renderLine_renderable [OF this, of st] r have "r = None" by simp
  with r Cons.IH [of st1] Cons.prems show ?case by simp
qed

lemma rebuild_renderable:
  assumes "\<forall>e \<in> set (logs st). renderable e"
  shows "fst (rebuild st) = None"
proof -
  obtain vis st1 where f: "filter_matches (logs st) st = (vis, st1)"
    by (cases "filter_matches (logs st) st")
  from filter_matches_subset [of "logs st" st] f have "set vis \<subseteq> set (logs st)" by simp
  with assms have "\<forall>e \<in> set vis. renderable e" by blast
  from render_all_renderable [OF this, of st1] f show ?thesis by (simp add: rebuild_def)
qed

text \<open>
  Claim C7, as the code has it. Whatever the batch and however the import ends, it
  calls each of \<^verbatim>\<open>onTagsChanged\<close>, \<^verbatim>\<open>onTerminalsChanged\<close> and \<^verbatim>\<open>onCountChanged\<close>
  at most once. An import that returns its count \<open>n\<close> has loaded \<open>n > 0\<close> entries and
  has called \<^verbatim>\<open>onCountChanged\<close> exactly once when the caller passed it and not at
  all when the caller did not, whatever \<open>n\<close> is and whatever tags and terminals the
  entries carry. An import that returns without a count, after an alert, calls none of
  the three. An import whose parser returns a batch that is not empty and whose
  entries can all be rendered returns the length of the batch.
\<close>

theorem C7_import_notifications:
  assumes "importLogs json_parse cbs format text st = (res, st', evs)"
  shows "count_list evs TagsChanged \<le> 1
     \<and> count_list evs TerminalsChanged \<le> 1
     \<and> count_list evs CountChanged \<le> 1
     \<and> (\<forall>n. res = Inr (Some n) \<longrightarrow>
           0 < n \<and> length (logs st') = n
           \<and> count_list evs CountChanged = (if onCountChanged cbs then 1 else 0))
     \<and> (res = Inr None \<longrightarrow>
           count_list evs TagsChanged = 0 \<and> count_list evs TerminalsChanged = 0
           \<and> count_list evs CountChanged = 0)
     \<and> (\<forall>parser entries.
           parsers json_parse format = Some parser \<and> parser st text = Inr entries
           \<and> entries \<noteq> [] \<and> list_all renderable entries \<longrightarrow>
           res = Inr (Some (length entries)))"
proof -
  have counted: "\<forall>n. res = Inr (Some n) \<longrightarrow>
           0 < n \<and> length (logs st') = n
           \<and> evs = (if onTagsChanged cbs \<and> fst (snd (bulkLoad
                         (case parsers json_parse format of
                            Some parser \<Rightarrow> (case parser st text of Inr es \<Rightarrow> es | Inl err \<Rightarrow> [])
                          | None \<Rightarrow> []) (clearLogs st, False, False)))
                      then [TagsChanged] else []) @
                    (if onTerminalsChanged cbs \<and> snd (snd (bulkLoad
                         (case parsers json_parse format of
                            Some parser \<Rightarrow> (case parser st text of Inr es \<Rightarrow> es | Inl err \<Rightarrow> [])
                          | None \<Rightarrow> []) (clearLogs st, False, False)))
                      then [TerminalsChanged] else []) @
                    (if onCountChanged cbs then [CountChanged] else [])"
  proof (intro allI impI)
    fix n assume res: "res = Inr (Some n)"
    from assms res obtain parser entries where
      p: "parsers json_parse format = Some parser" and e: "parser st text = Inr entries"
      and ne: "entries \<noteq> []"
      by (auto simp: importLogs_def split: option.splits sum.splits if_splits)
    obtain st1 newTags newTerminals where
      b: "bulkLoad entries (clearLogs st, False, False) = (st1, newTags, newTerminals)"
      by (cases "bulkLoad entries (clearLogs st, False, False)")
    obtain thrown st2 where r: "rebuild st1 = (thrown, st2)" by (cases "rebuild st1")
    from assms res p e ne b r have
      n: "n = length entries" and s: "st' = st2" and
      evs: "evs = (if onTagsChanged cbs \<and> newTags then [TagsChanged] else []) @
                  (if onTerminalsChanged cbs \<and> newTerminals then [TerminalsChanged] else []) @
                  (if onCountChanged cbs then [CountChanged] else [])"
      by (auto simp: importLogs_def split: option.splits)
    have "logs st2 = entries"
      using rebuild_logs [OF r] bulkLoad_logs [OF b] by (simp add: clearLogs_def)
    with n s ne evs p e b show
      "0 < n \<and> length (logs st') = n
           \<and> evs = (if onTagsChanged cbs \<and> fst (snd (bulkLoad
                         (case parsers json_parse format of
                            Some parser \<Rightarrow> (case parser st text of Inr es \<Rightarrow> es | Inl err \<Rightarrow> [])
                          | None \<Rightarrow> []) (clearLogs st, False, False)))
                      then [TagsChanged] else []) @
                    (if onTerminalsChanged cbs \<and> snd (snd (bulkLoad
                         (case parsers json_parse format of
                            Some parser \<Rightarrow> (case parser st text of Inr es \<Rightarrow> es | Inl err \<Rightarrow> [])
                          | None \<Rightarrow> []) (clearLogs st, False, False)))
                      then [TerminalsChanged] else []) @
                    (if onCountChanged cbs then [CountChanged] else [])"
      by simp
  qed
  have other: "(\<forall>n. res \<noteq> Inr (Some n)) \<longrightarrow> evs = [] \<or> (\<exists>a. evs = [Alert a])"
    using assms
    by (auto simp: importLogs_def Let_def split: option.splits sum.splits if_splits prod.splits)
  have bounds: "count_list evs TagsChanged \<le> 1 \<and> count_list evs TerminalsChanged \<le> 1
     \<and> count_list evs CountChanged \<le> 1"
  proof (cases "\<exists>n. res = Inr (Some n)")
    case True
    then obtain n where "res = Inr (Some n)" by blast
    with counted show ?thesis by auto
  next
    case False
    with other show ?thesis by auto
  qed
  have returned: "\<forall>n. res = Inr (Some n) \<longrightarrow>
           0 < n \<and> length (logs st') = n
           \<and> count_list evs CountChanged = (if onCountChanged cbs then 1 else 0)"
    using counted by auto
  have alerted: "res = Inr None \<longrightarrow>
           count_list evs TagsChanged = 0 \<and> count_list evs TerminalsChanged = 0
           \<and> count_list evs CountChanged = 0"
    using other by auto
  have rendered: "\<forall>parser entries.
           parsers json_parse format = Some parser \<and> parser st text = Inr entries
           \<and> entries \<noteq> [] \<and> list_all renderable entries \<longrightarrow>
           res = Inr (Some (length entries))"
  proof (intro allI impI, elim conjE)
    fix parser entries
    assume p: "parsers json_parse format = Some parser" and e: "parser st text = Inr entries"
      and ne: "entries \<noteq> []" and ok: "list_all renderable entries"
    obtain st1 newTags newTerminals where
      b: "bulkLoad entries (clearLogs st, False, False) = (st1, newTags, newTerminals)"
      by (cases "bulkLoad entries (clearLogs st, False, False)")
    obtain thrown st2 where r: "rebuild st1 = (thrown, st2)" by (cases "rebuild st1")
    have "logs st1 = entries" using bulkLoad_logs [OF b] by (simp add: clearLogs_def)
    with ok have "\<forall>e \<in> set (logs st1). renderable e" by (simp add: list_all_iff)
    from rebuild_renderable [OF this] r have "thrown = None" by simp
    with assms p e ne b r show "res = Inr (Some (length entries))"
      by (auto simp: importLogs_def)
  qed
  from bounds returned alerted rendered show ?thesis by blast
qed

theorem C7_import_notifications_witness:
  "parsers (\<lambda>t. Inl SyntaxError) ''txt'' = Some parseText
   \<and> length (case parseText example_state three_lines of Inr es \<Rightarrow> es | Inl err \<Rightarrow> []) = 3
   \<and> list_all renderable (case parseText example_state three_lines of Inr es \<Rightarrow> es | Inl err \<Rightarrow> [])
   \<and> fst (importLogs (\<lambda>t. Inl SyntaxError) all_callbacks ''txt'' three_lines example_state)
       = Inr (Some 3)
   \<and> snd (snd (importLogs (\<lambda>t. Inl SyntaxError) all_callbacks ''txt'' three_lines example_state))
       = [TagsChanged, TerminalsChanged, CountChanged]
   \<and> onCountChanged all_callbacks
   \<and> count_list [TagsChanged, TerminalsChanged, CountChanged] CountChanged = 1"
proof -
  let ?r = "importLogs (\<lambda>t. Inl SyntaxError) all_callbacks ''txt'' three_lines example_state"
  have p: "parsers (\<lambda>t. Inl SyntaxError) ''txt'' = Some parseText" by (simp add: parsers_def)
  have l: "length (case parseText example_state three_lines of Inr es \<Rightarrow> es | Inl err \<Rightarrow> []) = 3"
    by code_simp
  have k: "list_all renderable
             (case parseText example_state three_lines of Inr es \<Rightarrow> es | Inl err \<Rightarrow> [])"
    by code_simp
  have a: "fst ?r = Inr (Some 3)" by code_simp
  have b: "snd (snd ?r) = [TagsChanged, TerminalsChanged, CountChanged]" by code_simp
  have c: "onCountChanged all_callbacks" by (simp add: all_callbacks_def)
  have h: "?r = (Inr (Some 3), fst (snd ?r), [TagsChanged, TerminalsChanged, CountChanged])"
    using a b by (metis prod.collapse)
  from C7_import_notifications [OF h] p l k a b c show ?thesis by simp
qed

text \<open>
  The claim as stated fails at two files. The import of the empty JSON array shows the
  alert \<^verbatim>\<open>No log entries found in file\<close> and returns without calling
  \<^verbatim>\<open>onCountChanged\<close>. The import of the JSON array with one object whose message is
  the number 5 loads the entry, then ends with the TypeError of \<open>renderLine\<close> before
  any callback is called.
\<close>

theorem C7_no_count_notification:
  "fst (importLogs json_examples all_callbacks ''json'' empty_array_json example_state) = Inr None
   \<and> snd (snd (importLogs json_examples all_callbacks ''json'' empty_array_json example_state))
       = [Alert NoLogEntries]
   \<and> count_list [Alert NoLogEntries] CountChanged = 0
   \<and> fst (importLogs json_examples all_callbacks ''json'' number_message_json example_state)
       = Inl TypeError
   \<and> map message
       (logs (fst (snd (importLogs json_examples all_callbacks ''json'' number_message_json
                          example_state))))
       = [JNum (Num 5)]
   \<and> snd (snd (importLogs json_examples all_callbacks ''json'' number_message_json example_state))
       = []
   \<and> onCountChanged all_callbacks"
  by code_simp

section \<open>Export and re-import\<close>

subsection \<open>Numbers and their decimal strings\<close>

lemma digit_char_is_digit: "d < 10 \<Longrightarrow> is_digit (digit_char d)"
proof -
  assume "d < 10"
  then have "d \<in> {0,1,2,3,4,5,6,7,8,9}" by auto
  then show ?thesis by (auto simp: is_digit_def digit_char_def)
qed

lemma digit_val_digit_char: "d < 10 \<Longrightarrow> digit_val (digit_char d) = d"
proof -
  assume "d < 10"
  then have "d \<in> {0,1,2,3,4,5,6,7,8,9}" by auto
  then show ?thesis by (auto simp: digit_val_def digit_char_def upt_conv_Cons)
qed

lemma digits_small: "n < 10 \<Longrightarrow> digits n = [digit_char n]"
  by (subst digits.simps) simp

lemma digits_big: "\<not> n < 10 \<Longrightarrow> digits n = digits (n div 10) @ [digit_char (n mod 10)]"
  by (subst digits.simps) simp

lemma digits_all_digit: "list_all is_digit (digits n)"
proof (induction n rule: digits.induct)
  case (1 n)
  show ?case
  proof (cases "n < 10")
    case True
    then show ?thesis by (simp add: digits_small digit_char_is_digit)
  next
    case False
    with "1" have "list_all is_digit (digits (n div 10))" by simp
    moreover have "is_digit (digit_char (n mod 10))" by (simp add: digit_char_is_digit)
    ultimately show ?thesis using False by (simp add: digits_big)
  qed
qed

lemma digits_nonempty: "digits n \<noteq> []"
  by (subst digits.simps) simp

lemma digits_value_snoc: "digits_value (ds @ [c]) = 10 * digits_value ds + digit_val c"
  by (simp add: digits_value_def)

lemma digits_value_digits: "digits_value (digits n) = n"
proof (induction n rule: digits.induct)
  case (1 n)
  show ?case
  proof (cases "n < 10")
    case True
    then show ?thesis by (simp add: digits_small digits_value_def digit_val_digit_char)
  next
    case False
    with "1" have ih: "digits_value (digits (n div 10)) = n div 10" by simp
    have "digits n = digits (n div 10) @ [digit_char (n mod 10)]"
      using False by (rule digits_big)
    then have "digits_value (digits n) = 10 * (n div 10) + n mod 10"
      by (simp add: digits_value_snoc ih digit_val_digit_char)
    then show ?thesis by simp
  qed
qed

lemma is_digit_not_space: "is_digit c \<Longrightarrow> \<not> is_space c"
  by (auto simp: is_digit_def is_space_def)

lemma dropWhile_id: "xs \<noteq> [] \<Longrightarrow> \<not> P (hd xs) \<Longrightarrow> dropWhile P xs = xs"
  by (cases xs) auto

lemma trim_id:
  assumes "s \<noteq> []" "\<not> is_space (hd s)" "\<not> is_space (last s)"
  shows "trim s = s"
proof -
  have "dropWhile is_space s = s" using assms by (simp add: dropWhile_id)
  moreover have "dropWhile is_space (rev s) = rev s"
    using assms by (simp add: dropWhile_id hd_rev)
  ultimately show ?thesis by (simp add: trim_def)
qed

lemma list_all_hd_last: "xs \<noteq> [] \<Longrightarrow> list_all P xs \<Longrightarrow> P (hd xs) \<and> P (last xs)"
  by (cases xs) (auto simp: list_all_iff)

lemma trim_digits: "trim (digits n) = digits n"
  using list_all_hd_last [OF digits_nonempty digits_all_digit, of n]
  by (intro trim_id digits_nonempty) (auto simp: is_digit_not_space)

lemma hd_digits_not_sign: "hd (digits n) \<noteq> CHR ''-'' \<and> hd (digits n) \<noteq> CHR ''+''"
  using list_all_hd_last [OF digits_nonempty digits_all_digit, of n]
  by (auto simp: is_digit_def)

lemma trim_minus_digits: "trim (CHR ''-'' # digits n) = CHR ''-'' # digits n"
proof (rule trim_id)
  show "CHR ''-'' # digits n \<noteq> []" by simp
  show "\<not> is_space (hd (CHR ''-'' # digits n))" by (simp add: is_space_def)
  show "\<not> is_space (last (CHR ''-'' # digits n))"
    using list_all_hd_last [OF digits_nonempty digits_all_digit, of n]
    by (simp add: digits_nonempty is_digit_not_space)
qed

lemma strToNumber_numToString: "strToNumber (numToString (Num i)) = Num i"
proof (cases "i < 0")
  case True
  then show ?thesis
    by (simp add: strToNumber_def trim_minus_digits digits_nonempty digits_all_digit
        digits_value_digits)
next
  case False
  obtain c ds where cd: "digits (nat i) = c # ds"
    using digits_nonempty [of "nat i"] by (cases "digits (nat i)") auto
  have sign: "c \<noteq> CHR ''-''" "c \<noteq> CHR ''+''"
    using hd_digits_not_sign [of "nat i"] cd by auto
  have all: "list_all is_digit (c # ds)" using digits_all_digit [of "nat i"] cd by simp
  have val: "digits_value (c # ds) = nat i" using digits_value_digits [of "nat i"] cd by simp
  have "strToNumber (digits (nat i)) = Num (int (nat i))"
    unfolding strToNumber_def trim_digits Let_def
    using cd sign all val by simp
  with False show ?thesis by simp
qed

lemma takeWhile_all: "list_all P xs \<Longrightarrow> takeWhile P xs = xs"
  by (simp add: list_all_iff)

lemma parseInt_digits: "parseInt (digits n) = Num (int n)"
  by (simp add: parseInt_def Let_def takeWhile_all digits_all_digit digits_nonempty
      digits_value_digits)

subsection \<open>One CSV row\<close>

lemma escCSV_csv_text:
  "escCSV v =
     (if quoted_on_export (csv_text v) then dquote # double_quotes (csv_text v) @ [dquote]
      else csv_text v)"
  by (simp add: escCSV_def csv_text_def quoted_on_export_def Let_def)

lemma double_quotes_Cons:
  "double_quotes (c # s) = (if c = dquote then [dquote, dquote] else [c]) @ double_quotes s"
  by (simp add: double_quotes_def)

lemma row_plain:
  "CHR '','' \<notin> set s \<Longrightarrow> dquote \<notin> set s \<Longrightarrow>
     parseCSVRow_loop (s @ rest) vals cur inq = parseCSVRow_loop rest vals (cur @ s) inq"
  by (induction s arbitrary: cur) auto

lemma row_quoted:
  "rest = [] \<or> hd rest \<noteq> dquote \<Longrightarrow>
     parseCSVRow_loop (double_quotes s @ dquote # rest) vals cur True =
     parseCSVRow_loop rest vals (cur @ s) False"
proof (induction s arbitrary: cur)
  case Nil
  then show ?case by (cases rest) (auto simp: double_quotes_def)
next
  case (Cons c s)
  show ?case
  proof (cases "c = dquote")
    case True
    then show ?thesis using Cons.IH [OF Cons.prems, of "cur @ [dquote]"] by (simp add: double_quotes_Cons)
  next
    case False
    then show ?thesis using Cons.IH [OF Cons.prems, of "cur @ [c]"] by (simp add: double_quotes_Cons)
  qed
qed

lemma row_field:
  assumes "rest = [] \<or> hd rest = CHR '',''"
  shows "parseCSVRow_loop (escCSV v @ rest) vals cur False =
         parseCSVRow_loop rest vals (cur @ csv_text v) False"
proof (cases "quoted_on_export (csv_text v)")
  case True
  from assms have r: "rest = [] \<or> hd rest \<noteq> dquote" by auto
  have "parseCSVRow_loop (dquote # double_quotes (csv_text v) @ dquote # rest) vals cur False =
        parseCSVRow_loop (double_quotes (csv_text v) @ dquote # rest) vals cur True"
    by (cases "double_quotes (csv_text v) @ dquote # rest") auto
  with True row_quoted [OF r] show ?thesis by (simp add: escCSV_csv_text)
next
  case False
  then show ?thesis
    by (simp add: escCSV_csv_text row_plain quoted_on_export_def)
qed

lemma row_fields:
  "vs \<noteq> [] \<Longrightarrow>
     parseCSVRow_loop (join '','' (map escCSV vs)) vals [] False = vals @ map csv_text vs"
proof (induction vs arbitrary: vals)
  case Nil
  then show ?case by simp
next
  case (Cons v vs)
  show ?case
  proof (cases vs)
    case Nil
    then show ?thesis using row_field [of "[]" v vals "[]"] by simp
  next
    case (Cons w ws)
    have "parseCSVRow_loop (escCSV v @ CHR '','' # join '','' (map escCSV (w # ws))) vals [] False =
          parseCSVRow_loop (CHR '','' # join '','' (map escCSV (w # ws))) vals (csv_text v) False"
      using row_field [of "CHR '','' # join '','' (map escCSV (w # ws))" v vals "[]"] by simp
    also have "\<dots> = parseCSVRow_loop (join '','' (map escCSV (w # ws))) (vals @ [csv_text v]) [] False"
      by simp
    also have "\<dots> = (vals @ [csv_text v]) @ map csv_text (w # ws)"
      using Cons.IH [of "vals @ [csv_text v]"] Cons by simp
    finally show ?thesis using Cons by simp
  qed
qed

lemma parseCSVRow_fields:
  "vs \<noteq> [] \<Longrightarrow> parseCSVRow (join '','' (map escCSV vs)) = map csv_text vs"
  using row_fields [of vs "[]"] by (simp add: parseCSVRow_def)

subsection \<open>The lines of a CSV text\<close>

lemma split_plain:
  "dquote \<notin> set s \<Longrightarrow> LF \<notin> set s \<Longrightarrow> CR \<notin> set s \<Longrightarrow>
     splitCSVLines_loop (s @ rest) lines cur False = splitCSVLines_loop rest lines (cur @ s) False"
  by (induction s arbitrary: cur) auto

lemma split_quoted:
  "splitCSVLines_loop (double_quotes s @ dquote # rest) lines cur True =
   splitCSVLines_loop rest lines (cur @ double_quotes s @ [dquote]) False"
proof (induction s arbitrary: cur)
  case Nil
  then show ?case by (simp add: double_quotes_def)
next
  case (Cons c s)
  show ?case
  proof (cases "c = dquote")
    case True
    then show ?thesis using Cons.IH [of "cur @ [dquote, dquote]"] by (simp add: double_quotes_Cons)
  next
    case False
    then show ?thesis using Cons.IH [of "cur @ [c]"] by (simp add: double_quotes_Cons)
  qed
qed

lemma split_field:
  assumes "csv_text_ok (csv_text v)"
  shows "splitCSVLines_loop (escCSV v @ rest) lines cur False =
         splitCSVLines_loop rest lines (cur @ escCSV v) False"
proof (cases "quoted_on_export (csv_text v)")
  case True
  then show ?thesis using split_quoted [of "csv_text v" rest lines "cur @ [dquote]"]
    by (simp add: escCSV_csv_text)
next
  case False
  with assms have "CR \<notin> set (csv_text v)" by (simp add: csv_text_ok_def)
  with False show ?thesis
    by (simp add: escCSV_csv_text split_plain quoted_on_export_def)
qed

lemma split_fields:
  "\<forall>v \<in> set vs. csv_text_ok (csv_text v) \<Longrightarrow>
     splitCSVLines_loop (join '','' (map escCSV vs) @ rest) lines cur False =
     splitCSVLines_loop rest lines (cur @ join '','' (map escCSV vs)) False"
proof (induction vs arbitrary: cur)
  case Nil
  then show ?case by simp
next
  case (Cons v vs)
  show ?case
  proof (cases vs)
    case Nil
    then show ?thesis using split_field [of v rest lines cur] Cons.prems by simp
  next
    case (Cons w ws)
    have "splitCSVLines_loop (escCSV v @ CHR '','' # join '','' (map escCSV (w # ws)) @ rest) lines cur False =
          splitCSVLines_loop (CHR '','' # join '','' (map escCSV (w # ws)) @ rest) lines (cur @ escCSV v) False"
      using split_field [of v "CHR '','' # join '','' (map escCSV (w # ws)) @ rest" lines cur]
        Cons.prems by simp
    also have "\<dots> = splitCSVLines_loop (join '','' (map escCSV (w # ws)) @ rest) lines
                       (cur @ escCSV v @ '','') False"
      by simp
    also have "\<dots> = splitCSVLines_loop rest lines
                       ((cur @ escCSV v @ '','') @ join '','' (map escCSV (w # ws))) False"
      using Cons.IH [of "cur @ escCSV v @ '',''"] Cons.prems Cons by simp
    finally show ?thesis using Cons by simp
  qed
qed

text \<open>A line that the splitter copies as it stands, whatever follows it.\<close>

lemma split_lines:
  assumes "\<forall>r \<in> set rs. \<forall>rest lines cur.
             splitCSVLines_loop (r @ rest) lines cur False =
             splitCSVLines_loop rest lines (cur @ r) False"
    and "rs \<noteq> []"
  shows "splitCSVLines_loop (join [LF] rs) lines [] False = (lines @ butlast rs, last rs)"
  using assms
proof (induction rs arbitrary: lines)
  case Nil
  then show ?case by simp
next
  case (Cons r rs)
  from Cons.prems(1) have r: "\<And>rest lines cur.
      splitCSVLines_loop (r @ rest) lines cur False = splitCSVLines_loop rest lines (cur @ r) False"
    by simp
  show ?case
  proof (cases rs)
    case Nil
    then show ?thesis using r [of "[]" lines "[]"] by simp
  next
    case (Cons q qs)
    have "splitCSVLines_loop (r @ LF # join [LF] (q # qs)) lines [] False =
          splitCSVLines_loop (LF # join [LF] (q # qs)) lines r False"
      using r [of "LF # join [LF] (q # qs)" lines "[]"] by simp
    also have "\<dots> = splitCSVLines_loop (join [LF] (q # qs)) (lines @ [r]) [] False"
      by simp
    also have "\<dots> = ((lines @ [r]) @ butlast (q # qs), last (q # qs))"
      using Cons.IH [of "lines @ [r]"] Cons.prems(1) Cons by simp
    finally show ?thesis using Cons by simp
  qed
qed

lemma splitCSVLines_join:
  assumes "\<forall>r \<in> set rs. \<forall>rest lines cur.
             splitCSVLines_loop (r @ rest) lines cur False =
             splitCSVLines_loop rest lines (cur @ r) False"
    and "rs \<noteq> []" and "\<forall>r \<in> set rs. r \<noteq> []"
  shows "splitCSVLines (join [LF] rs) = rs"
proof -
  from assms(2,3) have "last rs \<noteq> []" by simp
  with split_lines [OF assms(1,2), of "[]"] assms(2) show ?thesis
    by (simp add: splitCSVLines_def)
qed

subsection \<open>CSV export, then CSV import\<close>

lemma map_result_map:
  "\<forall>x \<in> set xs. f (g x) = Inr (h x) \<Longrightarrow> map_result f (map g xs) = Inr (map h xs)"
  by (induction xs) auto

lemma in_dropWhile: "c \<in> set s \<Longrightarrow> \<not> P c \<Longrightarrow> c \<in> set (dropWhile P s)"
  by (induction s) auto

lemma trim_nonempty: "c \<in> set s \<Longrightarrow> \<not> is_space c \<Longrightarrow> trim s \<noteq> []"
proof -
  assume c: "c \<in> set s" and n: "\<not> is_space c"
  have "c \<in> set (dropWhile is_space s)"
    by (rule in_dropWhile [of c s is_space, OF c n])
  then have r: "c \<in> set (rev (dropWhile is_space s))" by simp
  have "c \<in> set (dropWhile is_space (rev (dropWhile is_space s)))"
    by (rule in_dropWhile [of c "rev (dropWhile is_space s)" is_space, OF r n])
  then have "dropWhile is_space (rev (dropWhile is_space s)) \<noteq> []"
    by (cases "dropWhile is_space (rev (dropWhile is_space s))") simp_all
  then show ?thesis by (simp add: trim_def)
qed

lemma comma_in_join: "CHR '','' \<in> set (join '','' (x # y # ys))"
  by simp

lemma no_CR_in_digits: "CR \<notin> set (digits n)"
proof
  assume "CR \<in> set (digits n)"
  with digits_all_digit [of n] have "is_digit CR" by (simp add: list_all_iff)
  then show False by (simp add: is_digit_def)
qed

lemma no_CR_in_number: "CR \<notin> set (numToString (Num i))"
  by (simp add: no_CR_in_digits)

lemma level_name_facts:
  "l \<in> set level_names \<Longrightarrow> l \<noteq> [] \<and> toLowerCase l = l \<and> CR \<notin> set l"
  by (auto simp: level_names_def toLowerCase_def lower_char_def)

lemma csv_optional_cases:
  "csv_optional v \<Longrightarrow> v = JNull \<or> (\<exists>s. v = JStr s \<and> s \<noteq> [] \<and> csv_text_ok s)"
  by (cases v) auto

lemma safe_integer_cases: "safe_integer v \<Longrightarrow> \<exists>i. v = JNum (Num i)"
  by (auto simp: safe_integer_def split: jsval.splits jsnum.splits)

lemma header_text: "join '','' columns = ''id,terminal,device_timestamp,level,tag,message''"
  by (simp add: columns_def)

lemma header_row: "parseCSVRow (join '','' columns) = columns"
  by code_simp

lemma csv_entry_texts:
  assumes "csv_entry e"
  shows "\<forall>v \<in> set [ident e, terminal e, device_timestamp e, level e, tag e, message e].
           csv_text_ok (csv_text v)"
proof -
  from assms have "safe_integer (ident e)" "safe_integer (terminal e)"
    by (simp_all add: csv_entry_def)
  then obtain i t where it: "ident e = JNum (Num i)" "terminal e = JNum (Num t)"
    using safe_integer_cases by blast
  from assms obtain l where l: "level e = JStr l" "l \<in> set level_names"
    by (auto simp: csv_entry_def)
  from assms obtain m where m: "message e = JStr m" "csv_text_ok m"
    by (auto simp: csv_entry_def split: jsval.splits)
  from assms have d: "device_timestamp e = JNull
      \<or> (\<exists>s. device_timestamp e = JStr s \<and> s \<noteq> [] \<and> csv_text_ok s)"
    using csv_optional_cases by (simp add: csv_entry_def)
  from assms have g: "tag e = JNull \<or> (\<exists>s. tag e = JStr s \<and> s \<noteq> [] \<and> csv_text_ok s)"
    using csv_optional_cases by (simp add: csv_entry_def)
  have n: "\<And>j. csv_text_ok (csv_text (JNum (Num j)))"
    using no_CR_in_number by (simp add: csv_text_ok_def csv_text_def nullish_def)
  have lv: "csv_text_ok (csv_text (JStr l))"
    using level_name_facts [OF l(2)] by (simp add: csv_text_ok_def csv_text_def nullish_def)
  have o: "\<And>v. v = JNull \<or> (\<exists>s. v = JStr s \<and> s \<noteq> [] \<and> csv_text_ok s)
             \<Longrightarrow> csv_text_ok (csv_text v)"
    by (auto simp: csv_text_ok_def csv_text_def nullish_def)
  from it l m n lv o [OF d] o [OF g] show ?thesis
    by (simp add: csv_text_def nullish_def)
qed

lemma normalize_row:
  assumes "csv_entry e"
  shows "normalize st
           (JObj (row_object columns
                    (map csv_text [ident e, terminal e, device_timestamp e, level e, tag e, message e])
                    [])) = Inr (e\<lparr>raw := message e\<rparr>)"
proof -
  from assms have "safe_integer (ident e)" "safe_integer (terminal e)"
    by (simp_all add: csv_entry_def)
  then obtain i t where it: "ident e = JNum (Num i)" "terminal e = JNum (Num t)"
    using safe_integer_cases by blast
  from assms obtain l where l: "level e = JStr l" "l \<in> set level_names"
    by (auto simp: csv_entry_def)
  from assms obtain m where m: "message e = JStr m"
    by (auto simp: csv_entry_def split: jsval.splits)
  from assms have d: "device_timestamp e = JNull
      \<or> (\<exists>s. device_timestamp e = JStr s \<and> s \<noteq> [] \<and> csv_text_ok s)"
    using csv_optional_cases by (simp add: csv_entry_def)
  from assms have g: "tag e = JNull \<or> (\<exists>s. tag e = JStr s \<and> s \<noteq> [] \<and> csv_text_ok s)"
    using csv_optional_cases by (simp add: csv_entry_def)
  define dt where "dt = csv_text (device_timestamp e)"
  define tg where "tg = csv_text (tag e)"
  have dt: "js_or (JStr dt) JNull = device_timestamp e"
    using d by (auto simp: dt_def csv_text_def nullish_def js_or_def)
  have tg: "js_or (JStr tg) JNull = tag e"
    using g by (auto simp: tg_def csv_text_def nullish_def js_or_def)
  have obj: "row_object columns
        (map csv_text [ident e, terminal e, device_timestamp e, level e, tag e, message e]) [] =
      [(''id'', JStr (numToString (Num i))), (''terminal'', JStr (numToString (Num t))),
       (''device_timestamp'', JStr dt), (''level'', JStr l), (''tag'', JStr tg),
       (''message'', JStr m)]"
    by (simp add: columns_def it l m csv_text_def nullish_def dt_def tg_def)
  have lvl: "js_or (JStr l) (JStr ''raw'') = JStr l"
    using level_name_facts [OF l(2)] by (simp add: js_or_def)
  have msg: "js_or (js_or (JStr m) JUndefined) (JStr []) = JStr m"
    "js_or (js_or JUndefined (JStr m)) (JStr []) = JStr m"
    by (auto simp: js_or_def)
  have "normalize st (JObj [(''id'', JStr (numToString (Num i))),
       (''terminal'', JStr (numToString (Num t))),
       (''device_timestamp'', JStr dt), (''level'', JStr l), (''tag'', JStr tg),
       (''message'', JStr m)]) =
     Inr \<lparr>ident = JNum (Num i), terminal = JNum (Num t), device_timestamp = device_timestamp e,
          level = JStr l, tag = tag e, message = JStr m, raw = JStr m\<rparr>"
    using level_name_facts [OF l(2)] l(2)
    by (simp add: normalize_def nullish_def lvl msg dt tg strToNumber_numToString Let_def
        del: numToString.simps)
  moreover have "e\<lparr>raw := message e\<rparr> =
     \<lparr>ident = JNum (Num i), terminal = JNum (Num t), device_timestamp = device_timestamp e,
          level = JStr l, tag = tag e, message = JStr m, raw = JStr m\<rparr>"
    using it l m by (cases e) simp
  ultimately show ?thesis by (simp only: obj)
qed

text \<open>
  Claim C2, as the code has it. For a sequence of entries that is not empty, whose ids
  and terminals are safe integers, whose timestamps and tags are \<^verbatim>\<open>null\<close> or
  non-empty strings, whose levels are among the five names and whose messages are
  strings, and in which every text that holds a carriage return also holds a comma, a
  double quote or a line feed: the CSV parser reads the CSV export back as the same
  sequence, each entry with its \<^verbatim>\<open>raw\<close> field replaced by its message, so the six
  schema fields of every entry are the ones exported. (The statement says nothing
  about a text whose only special character is a carriage return.)
\<close>

theorem C2_csv_round_trip:
  assumes "es \<noteq> []" and "\<forall>e \<in> set es. csv_entry e"
  shows "parseCSV st (logsToCSV es) = Inr (map (\<lambda>e. e\<lparr>raw := message e\<rparr>) es)
     \<and> length (map (\<lambda>e. e\<lparr>raw := message e\<rparr>) es) = length es
     \<and> map schema_fields (map (\<lambda>e. e\<lparr>raw := message e\<rparr>) es) = map schema_fields es"
proof -
  define row where
    "row = (\<lambda>e::entry. join '','' (map escCSV
              [ident e, terminal e, device_timestamp e, level e, tag e, message e]))"
  define header where "header = join '','' columns"
  have exported: "logsToCSV es = join [LF] (header # map row es)"
    by (simp add: logsToCSV_def row_def header_def columns_def getField_def)
  have copy_header: "\<forall>rest lines cur.
      splitCSVLines_loop (header @ rest) lines cur False =
      splitCSVLines_loop rest lines (cur @ header) False"
    unfolding header_def header_text by (intro allI split_plain) simp_all
  have copy_row: "\<forall>rest lines cur.
      splitCSVLines_loop (row e @ rest) lines cur False =
      splitCSVLines_loop rest lines (cur @ row e) False" if "e \<in> set es" for e
    unfolding row_def using csv_entry_texts that assms(2) by (intro allI split_fields) blast
  have comma: "CHR '','' \<in> set (row e)" for e
    unfolding row_def by simp
  have row_nonempty: "row e \<noteq> []" for e
    using comma [of e] by auto
  have row_kept: "trim (row e) \<noteq> []" for e
    using trim_nonempty [OF comma [of e]] by (simp add: is_space_def)
  have "splitCSVLines (join [LF] (header # map row es)) = header # map row es"
  proof (rule splitCSVLines_join)
    show "\<forall>r \<in> set (header # map row es). \<forall>rest lines cur.
        splitCSVLines_loop (r @ rest) lines cur False =
        splitCSVLines_loop rest lines (cur @ r) False"
      using copy_header copy_row by auto
    show "header # map row es \<noteq> []" by simp
    show "\<forall>r \<in> set (header # map row es). r \<noteq> []"
      using row_nonempty by (auto simp: header_def header_text)
  qed
  with exported have lines: "splitCSVLines (logsToCSV es) = header # map row es" by simp
  have kept: "filter (\<lambda>l. trim l \<noteq> []) (map row es) = map row es"
    using row_kept by (simp add: filter_id_conv)
  have hdr: "parseCSVRow header = columns"
    unfolding header_def by (rule header_row)
  have one: "normalize st (JObj (row_object columns (parseCSVRow (row e)) [])) =
      Inr (e\<lparr>raw := message e\<rparr>)" if "e \<in> set es" for e
  proof -
    have "parseCSVRow (row e) =
        map csv_text [ident e, terminal e, device_timestamp e, level e, tag e, message e]"
      unfolding row_def by (rule parseCSVRow_fields) simp
    with normalize_row [of e st] that assms(2) show ?thesis by simp
  qed
  have "map_result (\<lambda>line. normalize st (JObj (row_object columns (parseCSVRow line) [])))
          (map row es) = Inr (map (\<lambda>e. e\<lparr>raw := message e\<rparr>) es)"
    by (rule map_result_map) (use one in blast)
  with lines kept hdr assms(1) have
    "parseCSV st (logsToCSV es) = Inr (map (\<lambda>e. e\<lparr>raw := message e\<rparr>) es)"
    by (simp add: parseCSV_def Let_def)
  then show ?thesis by (simp add: schema_fields_def)
qed

theorem C2_csv_round_trip_witness:
  "csv_entry quoted_entry \<and> csv_entry example_entry
   \<and> parseCSV initial_state (logsToCSV [quoted_entry, example_entry]) =
       Inr [quoted_entry\<lparr>raw := message quoted_entry\<rparr>, example_entry\<lparr>raw := message example_entry\<rparr>]
   \<and> map schema_fields
       [quoted_entry\<lparr>raw := message quoted_entry\<rparr>, example_entry\<lparr>raw := message example_entry\<rparr>]
     = map schema_fields [quoted_entry, example_entry]"
proof -
  have a: "csv_entry quoted_entry" by code_simp
  have b: "csv_entry example_entry" by code_simp
  have h: "\<forall>e \<in> set [quoted_entry, example_entry]. csv_entry e" using a b by simp
  have n: "[quoted_entry, example_entry] \<noteq> []" by simp
  from C2_csv_round_trip [OF n h, of initial_state] a b show ?thesis by simp
qed

text \<open>
  The claim as stated fails at the empty sequence, whose export is the header line
  alone and is refused by the parser, and at a message with a carriage return that is
  not quoted: the splitter drops the carriage return.
\<close>

theorem C2_round_trip_fails:
  "parseCSV initial_state (logsToCSV []) =
     Inl (Error ''CSV must have a header row and at least one data row'')
   \<and> message cr_entry = JStr (''a'' @ [CR] @ ''b'')
   \<and> map message (case parseCSV initial_state (logsToCSV [cr_entry])
                   of Inr es \<Rightarrow> es | Inl err \<Rightarrow> []) = [JStr ''ab'']"
  by code_simp

subsection \<open>One line of the plain-text export\<close>

lemma dropWhile_replicate: "P a \<Longrightarrow> dropWhile P (replicate k a @ xs) = dropWhile P xs"
  by (induction k) auto

lemma takeWhile_run:
  "list_all P xs \<Longrightarrow> \<not> P c \<Longrightarrow> takeWhile P (xs @ c # ys) = xs"
  by (induction xs) auto

lemma dropWhile_run:
  "list_all P xs \<Longrightarrow> \<not> P c \<Longrightarrow> dropWhile P (xs @ c # ys) = c # ys"
  by (induction xs) auto

lemma skip_spaces_keep: "xs \<noteq> [] \<Longrightarrow> \<not> is_space (hd xs) \<Longrightarrow> skip_spaces (xs @ ys) = xs @ ys"
  by (cases xs) (auto simp: skip_spaces_def)

lemma skip_spaces_pad:
  "xs \<noteq> [] \<Longrightarrow> \<not> is_space (hd xs) \<Longrightarrow>
     skip_spaces (replicate k (CHR '' '') @ xs @ ys) = xs @ ys"
proof -
  assume a: "xs \<noteq> []" "\<not> is_space (hd xs)"
  have "is_space (CHR '' '')" by (simp add: is_space_def)
  then have "skip_spaces (replicate k (CHR '' '') @ xs @ ys) = skip_spaces (xs @ ys)"
    unfolding skip_spaces_def by (rule dropWhile_replicate)
  with skip_spaces_keep [OF a] show ?thesis by simp
qed

lemma skip_spaces_one: "\<not> is_space c \<Longrightarrow> skip_spaces (CHR '' '' # c # ys) = c # ys"
  by (simp add: skip_spaces_def is_space_def)

lemma skip_spaces_none: "\<not> is_space c \<Longrightarrow> skip_spaces (c # ys) = c # ys"
  by (simp add: skip_spaces_def)

lemma is_tschar_not_space: "is_tschar c \<Longrightarrow> \<not> is_space c"
  by (auto simp: is_tschar_def is_digit_def is_space_def)

lemma hd_list_all: "xs \<noteq> [] \<Longrightarrow> list_all P xs \<Longrightarrow> P (hd xs)"
  by (cases xs) auto

lemma opt_run_digits:
  "ds \<noteq> [] \<Longrightarrow> list_all is_digit ds \<Longrightarrow>
     opt_run is_digit (ds @ CHR '' '' # ys) = (Some ds, CHR '' '' # ys)"
proof -
  assume a: "ds \<noteq> []" "list_all is_digit ds"
  have s: "\<not> is_digit (CHR '' '')" by (simp add: is_digit_def)
  show ?thesis
    using a by (simp add: opt_run_def takeWhile_run [OF a(2) s] dropWhile_run [OF a(2) s])
qed

lemma opt_terminal_digits:
  "ds \<noteq> [] \<Longrightarrow> list_all is_digit ds \<Longrightarrow>
     opt_terminal (CHR ''T'' # ds @ CHR '' '' # ys) = (Some ds, CHR '' '' # ys)"
proof -
  assume a: "ds \<noteq> []" "list_all is_digit ds"
  have s: "\<not> is_digit (CHR '' '')" by (simp add: is_digit_def)
  show ?thesis
    using a by (simp add: opt_terminal_def takeWhile_run [OF a(2) s] dropWhile_run [OF a(2) s])
qed

lemma opt_run_stamp:
  "ts \<noteq> [] \<Longrightarrow> list_all is_tschar ts \<Longrightarrow>
     opt_run is_tschar (ts @ CHR '' '' # ys) = (Some ts, CHR '' '' # ys)"
proof -
  assume a: "ts \<noteq> []" "list_all is_tschar ts"
  have s: "\<not> is_tschar (CHR '' '')" by (simp add: is_tschar_def is_digit_def)
  show ?thesis
    using a by (simp add: opt_run_def takeWhile_run [OF a(2) s] dropWhile_run [OF a(2) s])
qed

lemma opt_run_no_stamp: "opt_run is_tschar (CHR ''['' # ys) = (None, CHR ''['' # ys)"
  by (simp add: opt_run_def is_tschar_def is_digit_def)

lemma no_line_break_skip: "no_line_break s \<Longrightarrow> no_line_break (skip_spaces s)"
  by (auto simp: no_line_break_def skip_spaces_def list_ex_iff dest: set_dropWhileD)

lemma set_tl_subset: "set (tl xs) \<subseteq> set xs"
  by (cases xs) auto

lemma set_dropWhile_subset: "set (dropWhile P xs) \<subseteq> set xs"
  by (rule subsetI) (erule set_dropWhileD)

lemma opt_tag_cases:
  "snd (opt_tag s) = s \<or>
   (\<exists>c r. s = c # r \<and> snd (opt_tag s) = tl (dropWhile (\<lambda>x. x \<noteq> CHR ''>'') r))"
proof (cases s)
  case Nil
  show ?thesis unfolding Nil opt_tag_def by simp
next
  case (Cons c r)
  show ?thesis unfolding Cons opt_tag_def by simp
qed

lemma opt_tag_subset: "set (snd (opt_tag s)) \<subseteq> set s"
proof -
  from opt_tag_cases [of s] show ?thesis
  proof
    assume "snd (opt_tag s) = s"
    then show ?thesis by simp
  next
    assume "\<exists>c r. s = c # r \<and> snd (opt_tag s) = tl (dropWhile (\<lambda>x. x \<noteq> CHR ''>'') r)"
    then obtain c r where s: "s = c # r"
      and t: "snd (opt_tag s) = tl (dropWhile (\<lambda>x. x \<noteq> CHR ''>'') r)" by blast
    have "set (tl (dropWhile (\<lambda>x. x \<noteq> CHR ''>'') r)) \<subseteq> set r"
      using set_tl_subset set_dropWhile_subset by (rule subset_trans)
    also have "set r \<subseteq> set s" unfolding s by (rule set_subset_Cons)
    finally show ?thesis unfolding t .
  qed
qed

lemma no_line_break_opt_tag: "no_line_break s \<Longrightarrow> no_line_break (snd (opt_tag s))"
  using opt_tag_subset [of s] unfolding no_line_break_def list_ex_iff by blast

lemma rest_of_line_ok: "no_line_break s \<Longrightarrow> rest_of_line s = Some s"
  by (simp add: rest_of_line_def no_line_break_def)

lemma level_mark_word:
  "lv \<in> set level_marks \<Longrightarrow> many1 is_word (lv @ CHR '']'' # ys) = Some (lv, CHR '']'' # ys)"
  by (auto simp: level_marks_def many1_def is_word_def)

lemma level_mark_of_name:
  "l \<in> set level_names \<Longrightarrow> take 3 (toUpperCase l) \<in> set level_marks"
  by (auto simp: level_names_def level_marks_def toUpperCase_def upper_char_def)

lemma selfExport_line:
  assumes ds: "ds \<noteq> []" "list_all is_digit ds"
    and dt: "dt \<noteq> []" "list_all is_digit dt"
    and stamp: "stamp = [] \<or> (\<exists>ts. ts \<noteq> [] \<and> list_all is_tschar ts \<and> stamp = ts @ '' '')"
    and lv: "lv \<in> set level_marks"
    and rest: "no_line_break rest"
  shows "\<exists>m3 m5 m6.
     selfExport (replicate k (CHR '' '') @ ds @ CHR '' '' # CHR ''T'' # dt @ CHR '' '' #
                 stamp @ CHR ''['' # lv @ CHR '']'' # rest) =
     Some (Some ds, Some dt, m3, lv, m5, m6)"
proof -
  define A where "A = CHR ''['' # lv @ CHR '']'' # rest"
  define B where "B = stamp @ A"
  define C where "C = CHR ''T'' # dt @ CHR '' '' # B"
  have nsp: "\<not> is_space (hd ds)"
    using hd_list_all [OF ds] by (rule is_digit_not_space)
  have h1: "skip_spaces (replicate k (CHR '' '') @ ds @ CHR '' '' # C) = ds @ CHR '' '' # C"
    using ds(1) nsp by (rule skip_spaces_pad)
  have h2: "opt_run is_digit (ds @ CHR '' '' # C) = (Some ds, CHR '' '' # C)"
    using ds by (rule opt_run_digits)
  have h3: "skip_spaces (CHR '' '' # C) = C"
    unfolding C_def by (rule skip_spaces_one) (simp add: is_space_def)
  have h4: "opt_terminal C = (Some dt, CHR '' '' # B)"
    unfolding C_def using dt by (rule opt_terminal_digits)
  have bracket: "\<not> is_space (CHR ''['')" by (simp add: is_space_def)
  have h5: "\<exists>m3 s3. opt_run is_tschar (skip_spaces (CHR '' '' # B)) = (m3, s3) \<and> skip_spaces s3 = A"
  proof -
    from stamp show ?thesis
    proof
      assume "stamp = []"
      then have "skip_spaces (CHR '' '' # B) = A"
        unfolding B_def A_def using skip_spaces_one [OF bracket] by simp
      moreover have "opt_run is_tschar A = (None, A)"
        unfolding A_def by (rule opt_run_no_stamp)
      moreover have "skip_spaces A = A"
        unfolding A_def using bracket by (rule skip_spaces_none)
      ultimately show ?thesis by simp
    next
      assume "\<exists>ts. ts \<noteq> [] \<and> list_all is_tschar ts \<and> stamp = ts @ '' ''"
      then obtain ts where ts: "ts \<noteq> []" "list_all is_tschar ts" and s: "stamp = ts @ '' ''"
        by blast
      have nt: "\<not> is_space (hd ts)"
        using hd_list_all [OF ts] by (rule is_tschar_not_space)
      have "skip_spaces (replicate 1 (CHR '' '') @ ts @ CHR '' '' # A) = ts @ CHR '' '' # A"
        using ts(1) nt by (rule skip_spaces_pad)
      then have "skip_spaces (CHR '' '' # B) = ts @ CHR '' '' # A"
        unfolding B_def s by simp
      moreover have "opt_run is_tschar (ts @ CHR '' '' # A) = (Some ts, CHR '' '' # A)"
        using ts by (rule opt_run_stamp)
      moreover have "skip_spaces (CHR '' '' # A) = A"
        unfolding A_def using bracket by (rule skip_spaces_one)
      ultimately show ?thesis by simp
    qed
  qed
  then obtain m3 s3 where
    h5a: "opt_run is_tschar (skip_spaces (CHR '' '' # B)) = (m3, s3)" and h5b: "skip_spaces s3 = A"
    by blast
  have h6: "expect (CHR ''['') A = Some (lv @ CHR '']'' # rest)"
    by (simp add: A_def expect_def)
  have h7: "many1 is_word (lv @ CHR '']'' # rest) = Some (lv, CHR '']'' # rest)"
    using lv by (rule level_mark_word)
  have h8: "expect (CHR '']'') (CHR '']'' # rest) = Some rest"
    by (simp add: expect_def)
  obtain m5 s7 where h9: "opt_tag (skip_spaces rest) = (m5, s7)"
    by (cases "opt_tag (skip_spaces rest)")
  have "no_line_break (skip_spaces (snd (opt_tag (skip_spaces rest))))"
    using rest by (intro no_line_break_skip no_line_break_opt_tag)
  then have h10: "rest_of_line (skip_spaces s7) = Some (skip_spaces s7)"
    using h9 by (simp add: rest_of_line_ok)
  have "selfExport (replicate k (CHR '' '') @ ds @ CHR '' '' # C) =
        Some (Some ds, Some dt, m3, lv, m5, skip_spaces s7)"
    by (simp add: selfExport_def h1 h2 h3 h4 h5a h5b h6 h7 h8 h9 h10)
  then show ?thesis unfolding C_def B_def A_def by auto
qed

lemma rttPrefix_none:
  assumes "3 \<le> length p" and "list_all (\<lambda>c. c = CHR '' '' \<or> is_digit c) p"
  shows "rttPrefix (p @ X) = None"
proof -
  from assms(1) obtain a b c q where p: "p = a # b # c # q"
    by (auto simp: Suc_le_length_iff numeral_3_eq_3)
  with assms(2) have "c = CHR '' '' \<or> is_digit c" by simp
  then have "c \<noteq> CHR ''>''" by (auto simp: is_digit_def)
  then show ?thesis
    by (simp add: rttPrefix_def digits_n_def expect_def p)
qed

lemma zephyr_none:
  assumes "p \<noteq> []" and "list_all (\<lambda>c. c = CHR '' '' \<or> is_digit c) p"
  shows "zephyr (p @ X) = None"
proof -
  from assms obtain a q where p: "p = a # q" and a: "a = CHR '' '' \<or> is_digit a"
    by (cases p) auto
  from a have "a \<noteq> CHR ''[''" by (auto simp: is_digit_def)
  then show ?thesis by (simp add: zephyr_def expect_def p)
qed

lemma tagged_none:
  assumes "p \<noteq> []" and "list_all (\<lambda>c. c = CHR '' '' \<or> is_digit c) p"
  shows "tagged (p @ X) = None"
proof -
  from assms obtain a q where p: "p = a # q" and a: "a = CHR '' '' \<or> is_digit a"
    by (cases p) auto
  from a have "a \<noteq> CHR ''<''" by (auto simp: is_digit_def)
  then show ?thesis by (simp add: tagged_def expect_def p)
qed

lemma padStart_digits:
  assumes "list_all is_digit ds"
  shows "5 \<le> length (padStart 5 ds)
     \<and> list_all (\<lambda>c. c = CHR '' '' \<or> is_digit c) (padStart 5 ds)"
  using assms by (auto simp: padStart_def list_all_iff)

lemma parseLine_export:
  assumes ds: "ds \<noteq> []" "list_all is_digit ds"
    and dt: "dt \<noteq> []" "list_all is_digit dt"
    and stamp: "stamp = [] \<or> (\<exists>ts. ts \<noteq> [] \<and> list_all is_tschar ts \<and> stamp = ts @ '' '')"
    and lv: "lv \<in> set level_marks"
    and rest: "no_line_break rest"
  shows "\<exists>cand. parseLine (padStart 5 ds @ CHR '' '' # CHR ''T'' # dt @ CHR '' '' #
                            stamp @ CHR ''['' # lv @ CHR '']'' # rest) idc = (cand, idc)
     \<and> \<not> nullish cand
     \<and> property cand ''id'' = JNum (parseInt ds)
     \<and> property cand ''terminal'' = JNum (parseInt dt)
     \<and> property cand ''level'' = JStr lv"
proof -
  define X where "X = CHR '' '' # CHR ''T'' # dt @ CHR '' '' # stamp @ CHR ''['' # lv @ CHR '']'' # rest"
  define line where "line = padStart 5 ds @ X"
  from padStart_digits [OF ds(2)] have
    p3: "3 \<le> length (padStart 5 ds)" and p0: "padStart 5 ds \<noteq> []"
    and pall: "list_all (\<lambda>c. c = CHR '' '' \<or> is_digit c) (padStart 5 ds)"
    by auto
  have n1: "rttPrefix line = None" unfolding line_def using p3 pall by (rule rttPrefix_none)
  have n2: "zephyr line = None" unfolding line_def using p0 pall by (rule zephyr_none)
  have n3: "tagged line = None" unfolding line_def using p0 pall by (rule tagged_none)
  from selfExport_line [OF ds dt stamp lv rest, of "5 - length ds"] obtain m3 m5 m6 where
    "selfExport (replicate (5 - length ds) (CHR '' '') @ ds @ X) =
       Some (Some ds, Some dt, m3, lv, m5, m6)"
    unfolding X_def by auto
  then have m: "selfExport line = Some (Some ds, Some dt, m3, lv, m5, m6)"
    by (simp add: line_def padStart_def)
  have "parseLine line idc =
     (JObj [(''id'', JNum (parseInt ds)), (''terminal'', JNum (parseInt dt)),
            (''device_timestamp'', js_or (opt_str m3) JNull), (''level'', JStr lv),
            (''tag'', js_or (opt_str m5) JNull), (''message'', js_or (JStr m6) (JStr [])),
            (''raw'', JStr line)], idc)"
    by (simp add: parseLine_def n1 n2 n3 m)
  then show ?thesis
    unfolding line_def X_def by (simp add: nullish_def)
qed

lemma normalize_ids:
  assumes "\<not> nullish obj" and "property obj ''id'' = JNum n"
    and "property obj ''terminal'' = JNum t" and "property obj ''level'' = JStr l" and "l \<noteq> []"
  shows "\<exists>e. normalize st obj = Inr e \<and> ident e = JNum n \<and> terminal e = JNum t"
  using assms by (simp add: normalize_def js_or_def nullish_def Let_def)

lemma nonneg_safe_integer_cases:
  "nonneg_safe_integer v \<Longrightarrow> \<exists>n. v = JNum (Num (int n))"
proof -
  assume "nonneg_safe_integer v"
  then obtain i where "v = JNum (Num i)" "0 \<le> i"
    by (auto simp: nonneg_safe_integer_def split: jsval.splits jsnum.splits)
  then have "v = JNum (Num (int (nat i)))" by simp
  then show ?thesis by blast
qed

lemma text_stamp_cases:
  "text_stamp v \<Longrightarrow> v = JNull \<or> (\<exists>ts. v = JStr ts \<and> ts \<noteq> [] \<and> list_all is_tschar ts)"
  by (cases v) auto

lemma text_tag_cases:
  "text_tag v \<Longrightarrow> v = JNull \<or> (\<exists>tg. v = JStr tg \<and> tg \<noteq> [] \<and> no_line_break tg)"
  by (cases v) auto

lemma numToString_nat: "numToString (Num (int n)) = digits n"
  by simp

lemma no_line_break_append:
  "no_line_break (xs @ ys) \<longleftrightarrow> no_line_break xs \<and> no_line_break ys"
  by (auto simp: no_line_break_def list_ex_iff)

lemma no_line_break_Cons:
  "no_line_break (c # ys) \<longleftrightarrow> \<not> is_line_terminator c \<and> no_line_break ys"
  by (auto simp: no_line_break_def)

lemma no_line_break_Nil: "no_line_break []"
  by (simp add: no_line_break_def)

text \<open>The line that \<open>textLine\<close> writes for an entry of the plain-text format.\<close>

lemma textLine_shape:
  assumes "text_entry e"
  shows "\<exists>i t stamp lv rest.
     ident e = JNum (Num (int i)) \<and> terminal e = JNum (Num (int t))
     \<and> (stamp = [] \<or> (\<exists>ts. ts \<noteq> [] \<and> list_all is_tschar ts \<and> stamp = ts @ '' ''))
     \<and> lv \<in> set level_marks \<and> no_line_break rest
     \<and> textLine e = Inr (padStart 5 (digits i) @ CHR '' '' # CHR ''T'' # digits t @ CHR '' '' #
                          stamp @ CHR ''['' # lv @ CHR '']'' # rest)"
proof -
  from assms have "nonneg_safe_integer (ident e)" "nonneg_safe_integer (terminal e)"
    by (simp_all add: text_entry_def)
  then obtain i t where it: "ident e = JNum (Num (int i))" "terminal e = JNum (Num (int t))"
    using nonneg_safe_integer_cases by blast
  from assms obtain l where l: "level e = JStr l" "l \<in> set level_names"
    by (auto simp: text_entry_def)
  from assms obtain m where m: "message e = JStr m" "no_line_break m" "m = [] \<longrightarrow> raw e = JStr []"
    by (auto simp: text_entry_def split: jsval.splits)
  from assms have d: "device_timestamp e = JNull
      \<or> (\<exists>ts. device_timestamp e = JStr ts \<and> ts \<noteq> [] \<and> list_all is_tschar ts)"
    using text_stamp_cases by (simp add: text_entry_def)
  from assms have g: "tag e = JNull \<or> (\<exists>tg. tag e = JStr tg \<and> tg \<noteq> [] \<and> no_line_break tg)"
    using text_tag_cases by (simp add: text_entry_def)
  define lv where "lv = take 3 (toUpperCase l)"
  have lv: "lv \<in> set level_marks" unfolding lv_def using l(2) by (rule level_mark_of_name)
  have lne: "l \<noteq> []" using level_name_facts [OF l(2)] by simp
  define stamp where
    "stamp = (case device_timestamp e of JStr ts \<Rightarrow> ts @ '' '' | _ \<Rightarrow> [])"
  define tagpart where
    "tagpart = (case tag e of JStr tg \<Rightarrow> CHR ''<'' # tg @ ''> '' | _ \<Rightarrow> [])"
  define rest where "rest = CHR '' '' # tagpart @ m"
  have stamp: "stamp = [] \<or> (\<exists>ts. ts \<noteq> [] \<and> list_all is_tschar ts \<and> stamp = ts @ '' '')"
    using d by (auto simp: stamp_def)
  have lt: "\<not> is_line_terminator (CHR '' '')" "\<not> is_line_terminator (CHR ''<'')"
    "\<not> is_line_terminator (CHR ''>'')"
    by (simp_all add: is_line_terminator_def)
  have "no_line_break tagpart"
    using g lt by (auto simp: tagpart_def no_line_break_append no_line_break_Cons no_line_break_Nil)
  then have rest: "no_line_break rest"
    using m(2) lt by (simp add: rest_def no_line_break_append no_line_break_Cons)
  have msg: "toString (js_or (js_or (message e) (raw e)) (JStr [])) = m"
    using m by (cases "m = []") (simp_all add: js_or_def)
  have lvl: "js_or (level e) (JStr ''raw'') = JStr l"
    using l lne by (simp add: js_or_def)
  have "textLine e = Inr (padStart 5 (digits i) @ CHR '' '' # CHR ''T'' # digits t @ CHR '' '' #
                          stamp @ CHR ''['' # lv @ CHR '']'' # rest)"
  proof -
    from d g show ?thesis
    proof (elim disjE exE conjE)
      assume "device_timestamp e = JNull" "tag e = JNull"
      then show ?thesis
        by (simp add: textLine_def lvl msg it nullish_def stamp_def tagpart_def rest_def lv_def
            del: numToString.simps add: numToString_nat)
    next
      fix tg assume "device_timestamp e = JNull" "tag e = JStr tg" "tg \<noteq> []"
      then show ?thesis
        by (simp add: textLine_def lvl msg it nullish_def stamp_def tagpart_def rest_def lv_def
            del: numToString.simps add: numToString_nat)
    next
      fix ts assume "device_timestamp e = JStr ts" "ts \<noteq> []" "tag e = JNull"
      then show ?thesis
        by (simp add: textLine_def lvl msg it nullish_def stamp_def tagpart_def rest_def lv_def
            del: numToString.simps add: numToString_nat)
    next
      fix ts tg
      assume "device_timestamp e = JStr ts" "ts \<noteq> []" "tag e = JStr tg" "tg \<noteq> []"
      then show ?thesis
        by (simp add: textLine_def lvl msg it nullish_def stamp_def tagpart_def rest_def lv_def
            del: numToString.simps add: numToString_nat)
    qed
  qed
  with it stamp lv rest show ?thesis by blast
qed

lemma no_line_break_digits: "no_line_break (digits n)"
proof -
  have "\<And>c. is_digit c \<Longrightarrow> \<not> is_line_terminator c"
    by (auto simp: is_digit_def is_line_terminator_def)
  with digits_all_digit [of n] show ?thesis
    by (auto simp: no_line_break_def list_ex_iff list_all_iff)
qed

lemma no_line_break_run:
  "list_all P s \<Longrightarrow> (\<And>c. P c \<Longrightarrow> \<not> is_line_terminator c) \<Longrightarrow> no_line_break s"
  by (auto simp: no_line_break_def list_ex_iff list_all_iff)

lemma level_mark_no_line_break: "lv \<in> set level_marks \<Longrightarrow> no_line_break lv"
  by (auto simp: level_marks_def no_line_break_def is_line_terminator_def)

text \<open>
  What the plain-text parser makes of the exported line of an entry: a line without
  line breaks that is not blank, read by the self-export expression with the id and
  the terminal of the entry, and with the counter untouched.
\<close>

lemma export_line:
  assumes "text_entry e"
  shows "\<exists>l. textLine e = Inr l \<and> no_line_break l \<and> trim l \<noteq> []
     \<and> (\<forall>idc. \<exists>cand e'. parseLine l idc = (cand, idc) \<and> normalize st cand = Inr e'
            \<and> ident e' = ident e \<and> terminal e' = terminal e)"
proof -
  from textLine_shape [OF assms] obtain i t stamp lv rest where
    it: "ident e = JNum (Num (int i))" "terminal e = JNum (Num (int t))"
    and stamp: "stamp = [] \<or> (\<exists>ts. ts \<noteq> [] \<and> list_all is_tschar ts \<and> stamp = ts @ '' '')"
    and lv: "lv \<in> set level_marks" and rest: "no_line_break rest"
    and line: "textLine e = Inr (padStart 5 (digits i) @ CHR '' '' # CHR ''T'' # digits t @
                 CHR '' '' # stamp @ CHR ''['' # lv @ CHR '']'' # rest)"
    by blast
  define l where "l = padStart 5 (digits i) @ CHR '' '' # CHR ''T'' # digits t @
                 CHR '' '' # stamp @ CHR ''['' # lv @ CHR '']'' # rest"
  have lt: "\<not> is_line_terminator (CHR '' '')" "\<not> is_line_terminator (CHR ''T'')"
    "\<not> is_line_terminator (CHR ''['')" "\<not> is_line_terminator (CHR '']'')"
    by (simp_all add: is_line_terminator_def)
  have ts_lt: "\<And>c. is_tschar c \<Longrightarrow> \<not> is_line_terminator c"
    by (auto simp: is_tschar_def is_digit_def is_line_terminator_def)
  have "no_line_break stamp"
    using stamp lt no_line_break_run [OF _ ts_lt]
    by (auto simp: no_line_break_append no_line_break_Cons no_line_break_Nil)
  moreover have "no_line_break (padStart 5 (digits i))"
    using no_line_break_digits [of i] lt
    by (auto simp: padStart_def no_line_break_def list_ex_iff)
  ultimately have nlb: "no_line_break l"
    using lt rest no_line_break_digits [of t] level_mark_no_line_break [OF lv]
    by (simp add: l_def no_line_break_append no_line_break_Cons)
  have "CHR ''T'' \<in> set l" by (simp add: l_def)
  moreover have "\<not> is_space (CHR ''T'')" by (simp add: is_space_def)
  ultimately have tr: "trim l \<noteq> []" by (rule trim_nonempty)
  have lvne: "lv \<noteq> []" using lv by (auto simp: level_marks_def)
  have parse: "\<exists>cand e'. parseLine l idc = (cand, idc) \<and> normalize st cand = Inr e'
            \<and> ident e' = ident e \<and> terminal e' = terminal e" for idc
  proof -
    from parseLine_export [OF digits_nonempty digits_all_digit digits_nonempty digits_all_digit
        stamp lv rest, of i t idc]
    obtain cand where c: "parseLine l idc = (cand, idc)" "\<not> nullish cand"
      "property cand ''id'' = JNum (parseInt (digits i))"
      "property cand ''terminal'' = JNum (parseInt (digits t))"
      "property cand ''level'' = JStr lv"
      unfolding l_def by blast
    from normalize_ids [OF c(2) c(3) c(4) c(5) lvne, of st] obtain e' where
      "normalize st cand = Inr e'" "ident e' = JNum (parseInt (digits i))"
      "terminal e' = JNum (parseInt (digits t))"
      by blast
    with c(1) it show ?thesis by (auto simp: parseInt_digits)
  qed
  from line nlb tr parse show ?thesis unfolding l_def by blast
qed

subsection \<open>Plain-text export, then plain-text import\<close>

lemma export_lines:
  assumes "\<forall>e \<in> set es. text_entry e"
  shows "\<exists>ls. map_result textLine es = Inr ls \<and> length ls = length es
     \<and> (\<forall>l \<in> set ls. no_line_break l \<and> trim l \<noteq> [])
     \<and> (\<forall>idc. \<exists>es'. parseText_lines st ls idc = Inr es'
            \<and> map ident es' = map ident es \<and> map terminal es' = map terminal es)"
  using assms
proof (induction es)
  case Nil
  then show ?case by simp
next
  case (Cons e es)
  from Cons.prems have e: "text_entry e" and rest: "\<forall>e \<in> set es. text_entry e" by simp_all
  from export_line [OF e, of st] obtain l where
    l: "textLine e = Inr l" "no_line_break l" "trim l \<noteq> []"
    and pl: "\<And>idc. \<exists>cand e'. parseLine l idc = (cand, idc) \<and> normalize st cand = Inr e'
            \<and> ident e' = ident e \<and> terminal e' = terminal e"
    by blast
  from Cons.IH [OF rest] obtain ls where
    ls: "map_result textLine es = Inr ls" "length ls = length es"
      "\<forall>l \<in> set ls. no_line_break l \<and> trim l \<noteq> []"
    and pls: "\<And>idc. \<exists>es'. parseText_lines st ls idc = Inr es'
            \<and> map ident es' = map ident es \<and> map terminal es' = map terminal es"
    by blast
  have "\<exists>es'. parseText_lines st (l # ls) idc = Inr es'
      \<and> map ident es' = map ident (e # es) \<and> map terminal es' = map terminal (e # es)" for idc
  proof -
    from pl [of idc] obtain cand e' where
      c: "parseLine l idc = (cand, idc)" "normalize st cand = Inr e'"
         "ident e' = ident e" "terminal e' = terminal e"
      by blast
    from pls [of idc] obtain es' where
      r: "parseText_lines st ls idc = Inr es'" "map ident es' = map ident es"
         "map terminal es' = map terminal es"
      by blast
    from c r have "parseText_lines st (l # ls) idc = Inr (e' # es')" by simp
    with c r show ?thesis by simp
  qed
  with l ls show ?case by simp
qed

lemma replace_crlf_id: "CR \<notin> set s \<Longrightarrow> replace_crlf s = s"
  by (induction s rule: replace_crlf.induct) auto

lemma replace_cr_id: "CR \<notin> set s \<Longrightarrow> replace_cr s = s"
  by (induction s) (auto simp: replace_cr_def)

lemma split_on_nonempty: "split_on d s \<noteq> []"
  by (induction s) (auto split: list.splits)

lemma split_on_plain: "d \<notin> set l \<Longrightarrow> split_on d l = [l]"
  by (induction l) auto

lemma split_on_first: "d \<notin> set l \<Longrightarrow> split_on d (l @ d # s) = l # split_on d s"
  by (induction l) auto

lemma split_on_join:
  "ls \<noteq> [] \<Longrightarrow> \<forall>l \<in> set ls. d \<notin> set l \<Longrightarrow> split_on d (join [d] ls) = ls"
proof (induction ls)
  case Nil
  then show ?case by simp
next
  case (Cons l ls)
  show ?case
  proof (cases ls)
    case Nil
    with Cons.prems show ?thesis by (simp add: split_on_plain)
  next
    case (Cons k ks)
    with Cons.prems Cons.IH show ?thesis by (simp add: split_on_first)
  qed
qed

lemma set_join_sep: "set (join sep ls) \<subseteq> set sep \<union> \<Union> (set ` set ls)"
  by (induction sep ls rule: join.induct) auto

lemma set_join: "set (join [d] ls) \<subseteq> insert d (\<Union> (set ` set ls))"
  using set_join_sep [of "[d]" ls] by simp

lemma no_line_break_chars: "no_line_break l \<Longrightarrow> LF \<notin> set l \<and> CR \<notin> set l"
  by (auto simp: no_line_break_def list_ex_iff is_line_terminator_def)

lemma text_lines:
  assumes "\<forall>l \<in> set ls. no_line_break l \<and> trim l \<noteq> []"
  shows "filter (\<lambda>l. trim l \<noteq> []) (split_on LF (replace_cr (replace_crlf (join [LF] ls)))) = ls"
proof (cases ls)
  case Nil
  then show ?thesis by (simp add: replace_cr_def trim_def)
next
  case (Cons k ks)
  have "CR \<notin> set (join [LF] ls)"
    using set_join [of LF ls] assms no_line_break_chars by fastforce
  then have "replace_cr (replace_crlf (join [LF] ls)) = join [LF] ls"
    by (simp add: replace_crlf_id replace_cr_id)
  moreover have "split_on LF (join [LF] ls) = ls"
    using Cons assms no_line_break_chars by (intro split_on_join) auto
  ultimately show ?thesis using assms by (simp add: filter_id_conv)
qed

text \<open>
  Claim C8, as the code has it. For a sequence of entries whose ids and terminals are
  safe integers that are not negative, whose timestamps are \<^verbatim>\<open>null\<close> or made of
  digits, colons, dots and commas, whose levels are among the five names, whose tags
  are \<^verbatim>\<open>null\<close> or non-empty strings without a line break and whose messages are
  strings without a line break (with an empty \<^verbatim>\<open>raw\<close> where the message is empty):
  the plain-text export succeeds, the plain-text parser reads it back as a sequence of
  the same length, and the entries have the same ids and the same terminals, in the
  same order.
\<close>

theorem C8_text_round_trip:
  assumes "\<forall>e \<in> set es. text_entry e"
  shows "\<exists>exported es'.
     logsToText es = Inr exported \<and> parseText st exported = Inr es'
     \<and> length es' = length es
     \<and> map ident es' = map ident es \<and> map terminal es' = map terminal es"
proof -
  from export_lines [OF assms, of st] obtain ls where
    ls: "map_result textLine es = Inr ls"
      "\<forall>l \<in> set ls. no_line_break l \<and> trim l \<noteq> []"
    and pls: "\<And>idc. \<exists>es'. parseText_lines st ls idc = Inr es'
            \<and> map ident es' = map ident es \<and> map terminal es' = map terminal es"
    by blast
  from pls [of 0] obtain es' where
    r: "parseText_lines st ls 0 = Inr es'" "map ident es' = map ident es"
       "map terminal es' = map terminal es"
    by blast
  have "logsToText es = Inr (join [LF] ls)"
    using ls(1) by (simp add: logsToText_def)
  moreover have "parseText st (join [LF] ls) = Inr es'"
    using r(1) text_lines [OF ls(2)] by (simp add: parseText_def)
  moreover have "length es' = length es"
    using r(2) by (metis length_map)
  ultimately show ?thesis using r by blast
qed

theorem C8_text_round_trip_witness:
  "text_entry example_entry \<and> text_entry stamped_entry
   \<and> logsToText [example_entry, stamped_entry] =
       Inr (''    4 T1 [INF] <net> up'' @ [LF] @
            ''   12 T3 00:29:56.296,813 [WAR] <a,b> say hi'')
   \<and> (\<exists>exported es'.
         logsToText [example_entry, stamped_entry] = Inr exported
         \<and> parseText initial_state exported = Inr es'
         \<and> length es' = length [example_entry, stamped_entry]
         \<and> map ident es' = map ident [example_entry, stamped_entry]
         \<and> map terminal es' = map terminal [example_entry, stamped_entry])"
proof -
  have a: "text_entry example_entry" by code_simp
  have b: "text_entry stamped_entry" by code_simp
  have c: "logsToText [example_entry, stamped_entry] =
       Inr (''    4 T1 [INF] <net> up'' @ [LF] @
            ''   12 T3 00:29:56.296,813 [WAR] <a,b> say hi'')"
    by code_simp
  have h: "\<forall>e \<in> set [example_entry, stamped_entry]. text_entry e" using a b by simp
  from C8_text_round_trip [OF h, of initial_state] a b c show ?thesis by blast
qed

text \<open>
  The claim as stated fails at two entries. The entry with the id 7, the terminal 3 and
  a message of two lines, \<^verbatim>\<open>a\<close> and \<^verbatim>\<open>b\<close>, is written as two lines and read
  back as two entries, with the ids 7 and 0. The entry with the id 7, the terminal 3
  and the timestamp \<^verbatim>\<open>2024-01-01\<close> is written as a line that the self-export
  expression does not match, and is read back with the id 0 and the terminal 0.
\<close>

theorem C8_round_trip_fails:
  "logsToText [two_line_entry] = Inr (''    7 T3 [INF] a'' @ [LF] @ ''b'')
   \<and> map ident (case parseText initial_state (''    7 T3 [INF] a'' @ [LF] @ ''b'')
                 of Inr es \<Rightarrow> es | Inl err \<Rightarrow> []) = [JNum (Num 7), JNum (Num 0)]
   \<and> ident dated_entry = JNum (Num 7) \<and> terminal dated_entry = JNum (Num 3)
   \<and> logsToText [dated_entry] = Inr ''    7 T3 2024-01-01 [INF] up''
   \<and> map ident (case parseText initial_state ''    7 T3 2024-01-01 [INF] up''
                 of Inr es \<Rightarrow> es | Inl err \<Rightarrow> []) = [JNum (Num 0)]
   \<and> map terminal (case parseText initial_state ''    7 T3 2024-01-01 [INF] up''
                    of Inr es \<Rightarrow> es | Inl err \<Rightarrow> []) = [JNum (Num 0)]"
  by code_simp

end
